theory Spec2Isabelle
  imports Complex_Main
begin

section \<open>Python values shared by both modules\<close>

text \<open>
  Numbers are exact reals (the arithmetic of the decision logic, not IEEE rounding); the
  counts and distances of the assignment are floats with \<open>inf\<close> and \<open>nan\<close>. Exceptions
  are values: every raising operation of the source returns \<open>Inl\<close> of the exception.
  \<open>KeyError\<close> carries the missing key.
\<close>

datatype py_error = KeyError int | ValueError | IndexError | TypeError

text \<open>
  A Python \<open>for x in xs: body\<close> whose body mutates the enclosing variables and may raise:
  the variables are the state \<open>s\<close>, an exception leaves the loop at once.
\<close>

fun for_loop :: "('a \<Rightarrow> 's \<Rightarrow> py_error + 's) \<Rightarrow> 'a list \<Rightarrow> 's \<Rightarrow> py_error + 's" where
  "for_loop body [] s = Inr s"
| "for_loop body (x # xs) s =
     (case body x s of Inl e \<Rightarrow> Inl e | Inr s' \<Rightarrow> for_loop body xs s')"

section \<open>pausenzuordnung.py: assigning breaks to charging locations\<close>

text \<open>
  A Python float of this module: a number, \<open>inf\<close>, \<open>-inf\<close> or \<open>nan\<close>. Numbers are exact
  reals (no rounding, no overflow to \<open>inf\<close>); the three special values behave as IEEE 754
  has it: \<open>nan\<close> is absorbing in a sum, \<open>inf + -inf\<close> is \<open>nan\<close>, and every comparison with
  \<open>nan\<close> is False, as is \<open>inf < inf\<close>.
\<close>

datatype pyfloat = Finite real | Infinity | NegInfinity | NaN

fun float_add :: "pyfloat \<Rightarrow> pyfloat \<Rightarrow> pyfloat" where
  "float_add (Finite a) (Finite b) = Finite (a + b)"
| "float_add NaN y = NaN"
| "float_add x NaN = NaN"
| "float_add Infinity NegInfinity = NaN"
| "float_add NegInfinity Infinity = NaN"
| "float_add Infinity y = Infinity"
| "float_add x Infinity = Infinity"
| "float_add NegInfinity y = NegInfinity"
| "float_add x NegInfinity = NegInfinity"

fun float_less :: "pyfloat \<Rightarrow> pyfloat \<Rightarrow> bool" where
  "float_less (Finite a) (Finite b) = (a < b)"
| "float_less NaN y = False"
| "float_less x NaN = False"
| "float_less Infinity y = False"
| "float_less x NegInfinity = False"
| "float_less x Infinity = True"
| "float_less NegInfinity y = True"

text \<open>The sum of a list of floats, from 0: the total the conservation of counts is about.\<close>

definition float_sum :: "pyfloat list \<Rightarrow> pyfloat" where
  "float_sum xs = foldr float_add xs (Finite 0)"

text \<open>
  A shapely geometry of \<open>gdf_ausschreibung_kreis\<close> is an object answering two questions
  about a point: \<open>contains\<close> and \<open>distance\<close>. The buffer polygons are built by geopandas
  outside \<open>assign_breaks_to_points\<close>, so a geometry is modelled by these two methods. The
  distance is a float: it is \<open>nan\<close> for an empty polygon.
\<close>

record 'p polygon =
  contains :: "'p \<Rightarrow> bool"
  distance :: "'p \<Rightarrow> pyfloat"

text \<open>
  A row of \<open>gdf_breaks_in_germany\<close>: its point and its \<open>Break_Number\<close>. The frame comes
  from \<open>filter_breaks_in_germany\<close>, which resets the index, so \<open>idx\<close> of \<open>iterrows\<close> is the
  row's position and \<open>list_break_numbers[idx]\<close> is the row's own \<open>Break_Number\<close>.
\<close>

record 'p break_point =
  geometry :: 'p
  break_count :: pyfloat

text \<open>\<open>xs[i] += c\<close> on a Python list of floats, for an index \<open>i \<ge> 0\<close>.\<close>

definition add_at :: "pyfloat list \<Rightarrow> nat \<Rightarrow> pyfloat \<Rightarrow> py_error + pyfloat list" where
  "add_at xs i c = (if i < length xs then Inr (xs[i := float_add (xs ! i) c]) else Inl IndexError)"

text \<open>
  \<open>np.where(contained)[0]\<close>: the positions of the True entries of the boolean series
  \<open>polygons_kreis.contains(point_geom)\<close>, ascending.
\<close>

definition contained_indices :: "'p polygon list \<Rightarrow> 'p \<Rightarrow> nat list" where
  "contained_indices polygons_kreis point_geom =
     filter (\<lambda>i. contains (polygons_kreis ! i) point_geom) [0..<length polygons_kreis]"

text \<open>
  pandas \<open>Series.idxmin\<close> on a default integer index: \<open>nan\<close> entries are skipped
  (\<open>skipna=True\<close>); the result is the position of the least remaining entry, the first
  one when several are equal to it; \<open>ValueError\<close> when no entry remains, that is on an
  empty series and on one that holds \<open>nan\<close> only. \<open>argmin_from\<close> scans the series with the
  best position and value so far.
\<close>

fun argmin_from :: "pyfloat list \<Rightarrow> nat \<Rightarrow> (nat \<times> pyfloat) option \<Rightarrow> (nat \<times> pyfloat) option" where
  "argmin_from [] i best = best"
| "argmin_from (d # ds) i best =
     (if d = NaN then argmin_from ds (Suc i) best
      else case best of
             None \<Rightarrow> argmin_from ds (Suc i) (Some (i, d))
           | Some (b, v) \<Rightarrow>
               if float_less d v then argmin_from ds (Suc i) (Some (i, d))
               else argmin_from ds (Suc i) best)"

definition idxmin :: "pyfloat list \<Rightarrow> py_error + nat" where
  "idxmin ds = (case argmin_from ds 0 None of None \<Rightarrow> Inl ValueError | Some (k, v) \<Rightarrow> Inr k)"

text \<open>
  Lines 159-168: the scan over the containing circles. The state is
  \<open>(min_ratio_value, selected_kreis)\<close>, started at \<open>(float('inf'), None)\<close>;
  \<open>results_breaks[kreis_idx]\<close> raises out of range.
\<close>

definition select_body :: "pyfloat list \<Rightarrow> nat \<Rightarrow> pyfloat \<times> nat option \<Rightarrow> py_error + pyfloat \<times> nat option" where
  "select_body results_breaks kreis_idx st =
     (if kreis_idx < length results_breaks then
        (let current_ratio = results_breaks ! kreis_idx in
         if float_less current_ratio (fst st) then Inr (current_ratio, Some kreis_idx)
         else Inr st)
      else Inl IndexError)"

text \<open>
  Lines 135-170: the body of the loop over the break points, on \<open>results_breaks\<close>. The
  \<open>print\<close> of a count of 10000 or more does not change the result. Line 170 indexes the
  list with \<open>selected_kreis\<close>: a \<open>TypeError\<close> when it is still \<open>None\<close>.
\<close>

definition assign_body :: "'p polygon list \<Rightarrow> 'p break_point \<Rightarrow> pyfloat list \<Rightarrow> py_error + pyfloat list" where
  "assign_body polygons_kreis row results_breaks =
     (let point_geom = geometry row;
          cnt = break_count row;
          cis = contained_indices polygons_kreis point_geom
      in if length cis = 0 then
           (case idxmin (map (\<lambda>g. distance g point_geom) polygons_kreis) of
              Inl e \<Rightarrow> Inl e
            | Inr nearest_geom_idx \<Rightarrow> add_at results_breaks nearest_geom_idx cnt)
         else if length cis = 1 then add_at results_breaks (cis ! 0) cnt
         else
           (case for_loop (select_body results_breaks) cis (Infinity, None) of
              Inl e \<Rightarrow> Inl e
            | Inr (min_ratio_value, selected_kreis) \<Rightarrow>
                (case selected_kreis of
                   None \<Rightarrow> Inl TypeError
                 | Some k \<Rightarrow> add_at results_breaks k cnt)))"

text \<open>
  \<open>assign_breaks_to_points\<close>: \<open>results_breaks = [0]*len(gdf_ausschreibung)\<close>, then the loop.
  Only the length of \<open>gdf_ausschreibung\<close> matters to the counts returned.
\<close>

definition assign_breaks_to_points ::
  "'p break_point list \<Rightarrow> 'f list \<Rightarrow> 'p polygon list \<Rightarrow> py_error + pyfloat list" where
  "assign_breaks_to_points gdf_breaks_in_germany gdf_ausschreibung gdf_ausschreibung_kreis =
     for_loop (assign_body gdf_ausschreibung_kreis) gdf_breaks_in_germany
       (replicate (length gdf_ausschreibung) (Finite 0))"

text \<open>
  Line 86, \<open>buffer(buffer_radius)\<close>, on a line, for concrete inputs: the catchment of
  radius \<open>r\<close> around \<open>c\<close> is the open interval, with the distance of a point to it. With
  radius 0 the buffer is an empty polygon: it contains no point and its distance to any
  point is \<open>nan\<close>.
\<close>

definition interval :: "real \<Rightarrow> real \<Rightarrow> real polygon" where
  "interval c r =
     (if r \<le> 0 then \<lparr>contains = (\<lambda>p. False), distance = (\<lambda>p. NaN)\<rparr>
      else \<lparr>contains = (\<lambda>p. \<bar>p - c\<bar> < r), distance = (\<lambda>p. Finite (max 0 (\<bar>p - c\<bar> - r)))\<rparr>)"

section \<open>pausenkoordinaten.py: segmenting trips into breaks\<close>

text \<open>The two entries of \<open>CONFIG\<close> the loops read.\<close>

definition DISTANCE_THRESHOLD :: real where
  "DISTANCE_THRESHOLD = 360"

definition MAX_DISTANCE_SINGLEDRIVER :: real where
  "MAX_DISTANCE_SINGLEDRIVER = 4320"

text \<open>
  A row of \<open>df_traffic_flow\<close>, with the columns \<open>main\<close> reads. \<open>Edge_path_E_road\<close> holds the
  list \<open>parse_edge_string\<close> decodes from the column's string (the decoding itself is not
  modelled).
\<close>

record traffic_row =
  Distance_from_origin_region_to_E_road :: real
  Distance_within_E_road :: real
  Traffic_flow_trucks_2030 :: real
  Edge_path_E_road :: "int list"

text \<open>One entry of \<open>dict_break\<close>: the ten columns appended together for a break.\<close>

record break_row =
  Trip_ID :: nat
  Driver :: nat
  Break_Nr :: nat
  Break_Type :: string
  Edge :: int
  Edge_length :: real
  Node_B :: int
  Latitude_B :: real
  Longitude_B :: real
  Break_Number :: real

text \<open>The four dictionaries built from \<open>df_edges\<close> and \<open>df_nodes\<close> (step 4).\<close>

record lookups =
  dict_edge_length :: "int \<rightharpoonup> real"
  dict_edge_node_b :: "int \<rightharpoonup> int"
  dict_node_lat :: "int \<rightharpoonup> real"
  dict_node_lon :: "int \<rightharpoonup> real"

text \<open>\<open>d[k]\<close> on a dict: \<open>KeyError\<close> when the key is missing.\<close>

definition getitem :: "(int \<rightharpoonup> 'v) \<Rightarrow> int \<Rightarrow> py_error + 'v" where
  "getitem d k = (case d k of None \<Rightarrow> Inl (KeyError k) | Some v \<Rightarrow> Inr v)"

text \<open>
  The variables of \<open>main\<close> the loops of step 6 assign. \<open>randint_calls\<close> counts the calls of
  \<open>np.random.randint(-50, 50)\<close> made so far: the process-wide generator is the sequence
  \<open>rng\<close> of the values its calls return, and call number \<open>i\<close> returns \<open>rng i\<close>.
\<close>

record seg_state =
  travel_distance :: real
  breaks :: nat
  breaks_reset :: nat
  randint_calls :: nat
  dict_break :: "break_row list"

text \<open>Step 2: the one-driver and the two-driver rows, in their order in the frame.\<close>

definition df_traffic_flow_filtered :: "traffic_row list \<Rightarrow> traffic_row list" where
  "df_traffic_flow_filtered df_traffic_flow =
     filter (\<lambda>r. Distance_from_origin_region_to_E_road r + Distance_within_E_road r > 0
               \<and> Distance_from_origin_region_to_E_road r + Distance_within_E_road r
                   \<le> MAX_DISTANCE_SINGLEDRIVER
               \<and> Traffic_flow_trucks_2030 r > 0) df_traffic_flow"

definition df_traffic_flow_filtered_two_driver :: "traffic_row list \<Rightarrow> traffic_row list" where
  "df_traffic_flow_filtered_two_driver df_traffic_flow =
     filter (\<lambda>r. Distance_from_origin_region_to_E_road r + Distance_within_E_road r
                   > MAX_DISTANCE_SINGLEDRIVER
               \<and> Traffic_flow_trucks_2030 r > 0) df_traffic_flow"

text \<open>
  Lines 141-164 and 184-210: the lookups of a break, in the order the source makes them,
  and the row appended to \<open>dict_break\<close>.
\<close>

definition new_break ::
  "lookups \<Rightarrow> nat \<Rightarrow> nat \<Rightarrow> nat \<Rightarrow> string \<Rightarrow> int \<Rightarrow> real \<Rightarrow> py_error + break_row" where
  "new_break L index driver nr break_type edge_id break_traffic_number =
     (case getitem (dict_edge_length L) edge_id of Inl e \<Rightarrow> Inl e | Inr break_edge_length \<Rightarrow>
      case getitem (dict_edge_node_b L) edge_id of Inl e \<Rightarrow> Inl e | Inr break_node_id \<Rightarrow>
      case getitem (dict_node_lat L) break_node_id of Inl e \<Rightarrow> Inl e | Inr break_node_lat \<Rightarrow>
      case getitem (dict_node_lon L) break_node_id of Inl e \<Rightarrow> Inl e | Inr break_node_lon \<Rightarrow>
        Inr \<lparr>Trip_ID = index, Driver = driver, Break_Nr = nr, Break_Type = break_type,
             Edge = edge_id, Edge_length = break_edge_length, Node_B = break_node_id,
             Latitude_B = break_node_lat, Longitude_B = break_node_lon,
             Break_Number = break_traffic_number\<rparr>)"

text \<open>Lines 135-164: the body of the loop over the edges of a one-driver trip.\<close>

definition single_edge ::
  "lookups \<Rightarrow> (nat \<Rightarrow> int) \<Rightarrow> nat \<Rightarrow> real \<Rightarrow> int \<Rightarrow> seg_state \<Rightarrow> py_error + seg_state" where
  "single_edge L rng index traffic edge_id s =
     (case getitem (dict_edge_length L) edge_id of
        Inl e \<Rightarrow> Inl e
      | Inr len \<Rightarrow>
         (let d = travel_distance s + len;
              jitter = rng (randint_calls s);
              s1 = s\<lparr>travel_distance := d, randint_calls := Suc (randint_calls s)\<rparr>
          in if d > DISTANCE_THRESHOLD + of_int jitter then
               (let nr = breaks s + 1;
                    break_type = (if nr mod 2 = 1 then ''short'' else ''long'')
                in case new_break L index 1 nr break_type edge_id traffic of
                     Inl e \<Rightarrow> Inl e
                   | Inr b \<Rightarrow> Inr (s1\<lparr>travel_distance := 0, breaks := nr,
                                      dict_break := dict_break s @ [b]\<rparr>))
             else Inr s1))"

text \<open>Lines 178-210: the same for a two-driver trip, with the counter \<open>breaks_reset\<close>.\<close>

definition double_edge ::
  "lookups \<Rightarrow> (nat \<Rightarrow> int) \<Rightarrow> nat \<Rightarrow> real \<Rightarrow> int \<Rightarrow> seg_state \<Rightarrow> py_error + seg_state" where
  "double_edge L rng index traffic edge_id s =
     (case getitem (dict_edge_length L) edge_id of
        Inl e \<Rightarrow> Inl e
      | Inr len \<Rightarrow>
         (let d = travel_distance s + len;
              jitter = rng (randint_calls s);
              s1 = s\<lparr>travel_distance := d, randint_calls := Suc (randint_calls s)\<rparr>
          in if d > DISTANCE_THRESHOLD + of_int jitter then
               (let nr = breaks s + 1;
                    break_type = (if breaks_reset s \<le> 2 then ''short'' else ''long'');
                    reset = (if breaks_reset s \<le> 2 then breaks_reset s + 1 else 0)
                in case new_break L index 2 nr break_type edge_id traffic of
                     Inl e \<Rightarrow> Inl e
                   | Inr b \<Rightarrow> Inr (s1\<lparr>travel_distance := 0, breaks := nr, breaks_reset := reset,
                                      dict_break := dict_break s @ [b]\<rparr>))
             else Inr s1))"

text \<open>
  Lines 129-134 and 171-177: the body of the loop over the trips, on a pair
  \<open>(index, row)\<close> of \<open>enumerate\<close>.
\<close>

definition single_trip ::
  "lookups \<Rightarrow> (nat \<Rightarrow> int) \<Rightarrow> nat \<times> traffic_row \<Rightarrow> seg_state \<Rightarrow> py_error + seg_state" where
  "single_trip L rng ir s =
     for_loop (single_edge L rng (fst ir) (Traffic_flow_trucks_2030 (snd ir)))
       (Edge_path_E_road (snd ir))
       (s\<lparr>travel_distance := Distance_from_origin_region_to_E_road (snd ir), breaks := 0\<rparr>)"

definition double_trip ::
  "lookups \<Rightarrow> (nat \<Rightarrow> int) \<Rightarrow> nat \<times> traffic_row \<Rightarrow> seg_state \<Rightarrow> py_error + seg_state" where
  "double_trip L rng ir s =
     for_loop (double_edge L rng (fst ir) (Traffic_flow_trucks_2030 (snd ir)))
       (Edge_path_E_road (snd ir))
       (s\<lparr>travel_distance := Distance_from_origin_region_to_E_road (snd ir), breaks := 0,
          breaks_reset := 0\<rparr>)"

text \<open>
  Before the loops no call of the generator has been made and \<open>dict_break\<close> holds empty
  columns; the other variables are assigned at the start of every trip.
\<close>

definition initial_state :: seg_state where
  "initial_state = \<lparr>travel_distance = 0, breaks = 0, breaks_reset = 0, randint_calls = 0,
                     dict_break = []\<rparr>"

text \<open>
  Steps 2 to 6 of \<open>main\<close>: the rows of \<open>dict_break\<close> after both loops, or the exception that
  ended the run.
\<close>

definition main_breaks :: "traffic_row list \<Rightarrow> lookups \<Rightarrow> (nat \<Rightarrow> int) \<Rightarrow> py_error + break_row list" where
  "main_breaks df_traffic_flow L rng =
     (case for_loop (single_trip L rng)
             (enumerate 0 (df_traffic_flow_filtered df_traffic_flow)) initial_state of
        Inl e \<Rightarrow> Inl e
      | Inr s \<Rightarrow>
         (case for_loop (double_trip L rng)
                 (enumerate 0 (df_traffic_flow_filtered_two_driver df_traffic_flow)) s of
            Inl e \<Rightarrow> Inl e
          | Inr s' \<Rightarrow> Inr (dict_break s')))"

text \<open>
  Step 7: \<open>df_breaks\<close>, the frame of \<open>dict_break\<close> after
  \<open>sort_values(by=['Trip_ID', 'Break_Nr'])\<close>. Sorting by several columns is pandas's
  lexicographic sort, which is stable: the stable sort by \<open>Break_Nr\<close> followed by the
  stable sort by \<open>Trip_ID\<close>. This is the frame written to \<open>breaks.csv\<close>.
\<close>

definition df_breaks :: "traffic_row list \<Rightarrow> lookups \<Rightarrow> (nat \<Rightarrow> int) \<Rightarrow> py_error + break_row list" where
  "df_breaks df_traffic_flow L rng =
     (case main_breaks df_traffic_flow L rng of
        Inl e \<Rightarrow> Inl e
      | Inr rows \<Rightarrow> Inr (sort_key Trip_ID (sort_key Break_Nr rows)))"

text \<open>The number of edges the two loops walk: one threshold check, one jitter draw each.\<close>

definition edge_checks :: "traffic_row list \<Rightarrow> nat" where
  "edge_checks df_traffic_flow =
     sum_list (map (\<lambda>r. length (Edge_path_E_road r))
       (df_traffic_flow_filtered df_traffic_flow @ df_traffic_flow_filtered_two_driver df_traffic_flow))"

text \<open>A network of three edges of 200 km, for concrete inputs.\<close>

definition example_lookups :: lookups where
  "example_lookups =
     \<lparr>dict_edge_length = [1 \<mapsto> 200, 2 \<mapsto> 200, 3 \<mapsto> 200],
      dict_edge_node_b = [1 \<mapsto> 11, 2 \<mapsto> 12, 3 \<mapsto> 13],
      dict_node_lat = [11 \<mapsto> 50, 12 \<mapsto> 51, 13 \<mapsto> 52],
      dict_node_lon = [11 \<mapsto> 8, 12 \<mapsto> 9, 13 \<mapsto> 10]\<rparr>"

section \<open>Properties of the assignment\<close>

subsection \<open>Auxiliary facts\<close>

text \<open>Unfolding the pass on concrete inputs.\<close>

lemmas assign_eval = assign_breaks_to_points_def assign_body_def contained_indices_def interval_def
  select_body_def add_at_def idxmin_def

text \<open>Sums and comparisons of floats.\<close>

lemma float_add_commute: "float_add a b = float_add b a"
  by (cases a; cases b; simp)

lemma float_add_assoc: "float_add (float_add a b) c = float_add a (float_add b c)"
  by (cases a; cases b; cases c; simp)

lemma float_add_zero: "float_add (Finite 0) a = a" "float_add a (Finite 0) = a"
  by (cases a; simp)+

lemma float_less_trans: "float_less a b \<Longrightarrow> float_less b c \<Longrightarrow> float_less a c"
  by (cases a; cases b; cases c; simp)

lemma float_less_irrefl: "\<not> float_less a a"
  by (cases a; simp)

lemma float_less_below_inf: "float_less a b \<Longrightarrow> float_less a Infinity"
  by (cases a; cases b; simp)

lemma float_less_not_nan: "float_less a b \<Longrightarrow> a \<noteq> NaN \<and> b \<noteq> NaN"
  by (cases a; cases b; simp)

lemma float_not_less_trans:
  "b \<noteq> NaN \<Longrightarrow> \<not> float_less c b \<Longrightarrow> \<not> float_less b k \<Longrightarrow> \<not> float_less c k"
  by (cases b; cases c; cases k; simp)

lemma float_less_le_trans:
  "float_less k b \<Longrightarrow> \<not> float_less c b \<Longrightarrow> c \<noteq> NaN \<Longrightarrow> float_less k c"
  by (cases b; cases c; cases k; simp)

lemma float_le_less_trans:
  "k \<noteq> NaN \<Longrightarrow> \<not> float_less a k \<Longrightarrow> float_less a b \<Longrightarrow> float_less k b"
  by (cases a; cases b; cases k; simp)

lemma float_sum_Cons: "float_sum (x # xs) = float_add x (float_sum xs)"
  by (simp add: float_sum_def)

lemma float_sum_Nil: "float_sum [] = Finite 0"
  by (simp add: float_sum_def)

lemma float_sum_add_at:
  "i < length xs \<Longrightarrow> float_sum (xs[i := float_add (xs ! i) c]) = float_add (float_sum xs) c"
proof (induction xs arbitrary: i)
  case Nil
  then show ?case by simp
next
  case (Cons x xs)
  show ?case
  proof (cases i)
    case 0
    have "float_add (float_add x c) (float_sum xs) = float_add (float_add x (float_sum xs)) c"
      by (metis float_add_assoc float_add_commute)
    with 0 show ?thesis by (simp add: float_sum_Cons)
  next
    case (Suc j)
    with Cons.prems have "j < length xs" by simp
    from Cons.IH[OF this] Suc show ?thesis by (simp add: float_sum_Cons float_add_assoc)
  qed
qed

lemma float_sum_replicate_zero: "float_sum (replicate n (Finite 0)) = Finite 0"
  by (induction n) (simp_all add: float_sum_Cons float_sum_Nil float_add_zero)

lemma float_sum_Finite: "float_sum (map Finite xs) = Finite (sum_list xs)"
  by (induction xs) (simp_all add: float_sum_Cons float_sum_Nil)

text \<open>One step and one pass.\<close>

lemma add_at_Inr:
  "add_at xs i c = Inr ys \<Longrightarrow> i < length xs \<and> ys = xs[i := float_add (xs ! i) c]"
  by (auto simp: add_at_def split: if_splits)

lemma assign_body_Inr:
  assumes "assign_body P row rs = Inr rs'"
  shows "\<exists>k<length rs. rs' = rs[k := float_add (rs ! k) (break_count row)]"
  using assms
  by (auto simp: assign_body_def Let_def split: if_splits sum.splits option.splits prod.splits dest!: add_at_Inr)

lemma assign_loop_sum:
  "for_loop (assign_body P) rows rs = Inr rs' \<Longrightarrow>
     length rs' = length rs \<and>
     float_sum rs' = float_add (float_sum rs) (float_sum (map break_count rows))"
proof (induction rows arbitrary: rs)
  case Nil
  then show ?case by (simp add: float_sum_Nil float_add_zero)
next
  case (Cons row rows)
  from Cons.prems obtain r1 where b: "assign_body P row rs = Inr r1"
    and l: "for_loop (assign_body P) rows r1 = Inr rs'"
    by (auto split: sum.splits)
  from assign_body_Inr[OF b] obtain k where k: "k < length rs" "r1 = rs[k := float_add (rs ! k) (break_count row)]"
    by blast
  from Cons.IH[OF l] k show ?case
    by (simp add: float_sum_add_at float_sum_Cons float_add_assoc)
qed

lemma assign_loop_finite:
  "for_loop (assign_body P) rows (map Finite xs) = Inr rs' \<Longrightarrow>
   map break_count rows = map Finite cs \<Longrightarrow>
     \<exists>ys. rs' = map Finite ys"
proof (induction rows arbitrary: xs cs)
  case Nil
  then show ?case by auto
next
  case (Cons row rows)
  from Cons.prems(2) obtain c cs' where c: "break_count row = Finite c" "cs = c # cs'"
    "map break_count rows = map Finite cs'"
    by (cases cs) auto
  from Cons.prems(1) obtain r1 where b: "assign_body P row (map Finite xs) = Inr r1"
    and l: "for_loop (assign_body P) rows r1 = Inr rs'"
    by (auto split: sum.splits)
  from assign_body_Inr[OF b] obtain k where
    k: "k < length xs" "r1 = (map Finite xs)[k := float_add (map Finite xs ! k) (break_count row)]"
    by auto
  have "r1 = map Finite (xs[k := xs ! k + c])"
    using k c(1) by (simp add: map_update)
  with Cons.IH[OF _ c(3)] l show ?case by blast
qed

lemma sorted_contained: "sorted_wrt (<) (contained_indices P p)"
  unfolding contained_indices_def by (simp add: sorted_wrt_filter)

lemma set_contained: "set (contained_indices P p) = {i. i < length P \<and> contains (P ! i) p}"
  unfolding contained_indices_def by auto

lemma contained_lt: "j \<in> set (contained_indices P p) \<Longrightarrow> j < length P"
  by (simp add: set_contained)

text \<open>The scan, once an index is selected.\<close>

lemma select_loop_inv:
  assumes "sorted_wrt (<) cs" "\<forall>j\<in>set cs. b < j \<and> j < length rs" "b < length rs"
    and "float_less (rs ! b) Infinity"
  shows "\<exists>k. for_loop (select_body rs) cs (rs ! b, Some b) = Inr (rs ! k, Some k) \<and>
           k \<in> insert b (set cs) \<and> float_less (rs ! k) Infinity \<and>
           (\<forall>j\<in>insert b (set cs). \<not> float_less (rs ! j) (rs ! k)) \<and>
           (\<forall>j\<in>insert b (set cs). j < k \<and> rs ! j \<noteq> NaN \<longrightarrow> float_less (rs ! k) (rs ! j))"
  using assms
proof (induction cs arbitrary: b)
  case Nil
  then show ?case by (simp add: float_less_irrefl)
next
  case (Cons c cs)
  have c: "c < length rs" "b < c" using Cons.prems by auto
  have srt: "sorted_wrt (<) cs" and gt: "\<forall>j\<in>set cs. c < j \<and> j < length rs"
    using Cons.prems by auto
  have bn: "rs ! b \<noteq> NaN" using Cons.prems(4) float_less_not_nan by blast
  show ?case
  proof (cases "float_less (rs ! c) (rs ! b)")
    case True
    have ce: "float_less (rs ! c) Infinity" using True by (rule float_less_below_inf)
    from Cons.IH[OF srt gt c(1) ce] obtain k where
      k: "for_loop (select_body rs) cs (rs ! c, Some c) = Inr (rs ! k, Some k)"
         "k \<in> insert c (set cs)" "float_less (rs ! k) Infinity"
         "\<forall>j\<in>insert c (set cs). \<not> float_less (rs ! j) (rs ! k)"
         "\<forall>j\<in>insert c (set cs). j < k \<and> rs ! j \<noteq> NaN \<longrightarrow> float_less (rs ! k) (rs ! j)"
      by blast
    have step: "select_body rs c (rs ! b, Some b) = Inr (rs ! c, Some c)"
      using True c by (simp add: select_body_def)
    have kn: "rs ! k \<noteq> NaN" using k(3) float_less_not_nan by blast
    have nck: "\<not> float_less (rs ! c) (rs ! k)" using k(4) by simp
    have lt: "float_less (rs ! k) (rs ! b)"
      using float_le_less_trans[OF kn nck True] .
    have nb: "\<not> float_less (rs ! b) (rs ! k)"
    proof
      assume "float_less (rs ! b) (rs ! k)"
      with lt have "float_less (rs ! k) (rs ! k)" by (rule float_less_trans)
      then show False by (simp add: float_less_irrefl)
    qed
    have kin: "k \<in> insert b (set (c # cs))" using k(2) by auto
    have a: "\<forall>j\<in>insert b (set (c # cs)). \<not> float_less (rs ! j) (rs ! k)"
      using k(4) nb by auto
    have t: "\<forall>j\<in>insert b (set (c # cs)). j < k \<and> rs ! j \<noteq> NaN \<longrightarrow> float_less (rs ! k) (rs ! j)"
      using k(5) lt by auto
    have run: "for_loop (select_body rs) (c # cs) (rs ! b, Some b) = Inr (rs ! k, Some k)"
      using step k(1) by simp
    from run kin k(3) a t show ?thesis by blast
  next
    case False
    have gt': "\<forall>j\<in>set cs. b < j \<and> j < length rs" using gt c by auto
    from Cons.IH[OF srt gt' Cons.prems(3) Cons.prems(4)] obtain k where
      k: "for_loop (select_body rs) cs (rs ! b, Some b) = Inr (rs ! k, Some k)"
         "k \<in> insert b (set cs)" "float_less (rs ! k) Infinity"
         "\<forall>j\<in>insert b (set cs). \<not> float_less (rs ! j) (rs ! k)"
         "\<forall>j\<in>insert b (set cs). j < k \<and> rs ! j \<noteq> NaN \<longrightarrow> float_less (rs ! k) (rs ! j)"
      by blast
    have step: "select_body rs c (rs ! b, Some b) = Inr (rs ! b, Some b)"
      using False c by (simp add: select_body_def)
    have nbk: "\<not> float_less (rs ! b) (rs ! k)" using k(4) by simp
    have nc: "\<not> float_less (rs ! c) (rs ! k)"
      using float_not_less_trans[OF bn False nbk] .
    have tie: "c < k \<Longrightarrow> rs ! c \<noteq> NaN \<Longrightarrow> float_less (rs ! k) (rs ! c)"
    proof -
      assume "c < k" and cn: "rs ! c \<noteq> NaN"
      then have "b < k" using c by simp
      then have "float_less (rs ! k) (rs ! b)" using k(5) bn by simp
      then show ?thesis using False cn by (rule float_less_le_trans)
    qed
    have kin: "k \<in> insert b (set (c # cs))" using k(2) by auto
    have a: "\<forall>j\<in>insert b (set (c # cs)). \<not> float_less (rs ! j) (rs ! k)"
      using k(4) nc by auto
    have t: "\<forall>j\<in>insert b (set (c # cs)). j < k \<and> rs ! j \<noteq> NaN \<longrightarrow> float_less (rs ! k) (rs ! j)"
      using k(5) tie by auto
    have run: "for_loop (select_body rs) (c # cs) (rs ! b, Some b) = Inr (rs ! k, Some k)"
      using step k(1) by simp
    from run kin k(3) a t show ?thesis by blast
  qed
qed

text \<open>The scan from its start \<open>(Infinity, None)\<close>.\<close>

lemma select_loop_none:
  assumes "\<forall>j\<in>set cs. j < length rs \<and> \<not> float_less (rs ! j) Infinity"
  shows "for_loop (select_body rs) cs (Infinity, None) = Inr (Infinity, None)"
  using assms by (induction cs) (simp_all add: select_body_def)

lemma select_loop_start:
  assumes "sorted_wrt (<) cs" "\<forall>j\<in>set cs. j < length rs"
    and "\<exists>j\<in>set cs. float_less (rs ! j) Infinity"
  shows "\<exists>k\<in>set cs. for_loop (select_body rs) cs (Infinity, None) = Inr (rs ! k, Some k) \<and>
           float_less (rs ! k) Infinity \<and>
           (\<forall>j\<in>set cs. \<not> float_less (rs ! j) (rs ! k)) \<and>
           (\<forall>j\<in>set cs. j < k \<and> rs ! j \<noteq> NaN \<longrightarrow> float_less (rs ! k) (rs ! j))"
  using assms
proof (induction cs)
  case Nil
  then show ?case by simp
next
  case (Cons c cs)
  have cl: "c < length rs" using Cons.prems(2) by simp
  have srt: "sorted_wrt (<) cs" using Cons.prems(1) by simp
  have rng: "\<forall>j\<in>set cs. j < length rs" using Cons.prems(2) by simp
  show ?case
  proof (cases "float_less (rs ! c) Infinity")
    case True
    have step: "select_body rs c (Infinity, None) = Inr (rs ! c, Some c)"
      using True cl by (simp add: select_body_def)
    have gt: "\<forall>j\<in>set cs. c < j \<and> j < length rs" using Cons.prems(1,2) by auto
    from select_loop_inv[OF srt gt cl True] obtain k where
      k: "for_loop (select_body rs) cs (rs ! c, Some c) = Inr (rs ! k, Some k)"
         "k \<in> insert c (set cs)" "float_less (rs ! k) Infinity"
         "\<forall>j\<in>insert c (set cs). \<not> float_less (rs ! j) (rs ! k)"
         "\<forall>j\<in>insert c (set cs). j < k \<and> rs ! j \<noteq> NaN \<longrightarrow> float_less (rs ! k) (rs ! j)"
      by blast
    have run: "for_loop (select_body rs) (c # cs) (Infinity, None) = Inr (rs ! k, Some k)"
      using step k(1) by simp
    from run k(2-5) show ?thesis by auto
  next
    case False
    have step: "select_body rs c (Infinity, None) = Inr (Infinity, None)"
      using False cl by (simp add: select_body_def)
    from Cons.prems(3) False have ex: "\<exists>j\<in>set cs. float_less (rs ! j) Infinity" by auto
    from Cons.IH[OF srt rng ex] obtain k where
      k: "k \<in> set cs" "for_loop (select_body rs) cs (Infinity, None) = Inr (rs ! k, Some k)"
         "float_less (rs ! k) Infinity"
         "\<forall>j\<in>set cs. \<not> float_less (rs ! j) (rs ! k)"
         "\<forall>j\<in>set cs. j < k \<and> rs ! j \<noteq> NaN \<longrightarrow> float_less (rs ! k) (rs ! j)"
      by blast
    have nc: "\<not> float_less (rs ! c) (rs ! k)"
      using False float_less_below_inf by blast
    have tie: "rs ! c \<noteq> NaN \<Longrightarrow> float_less (rs ! k) (rs ! c)"
    proof -
      assume "rs ! c \<noteq> NaN"
      with False have "rs ! c = Infinity" by (cases "rs ! c") auto
      then show ?thesis using k(3) by simp
    qed
    have run: "for_loop (select_body rs) (c # cs) (Infinity, None) = Inr (rs ! k, Some k)"
      using step k(2) by simp
    from run k(1,3,4,5) nc tie show ?thesis by auto
  qed
qed

lemma assign_body_multi:
  assumes len: "length rs = length P" and multi: "2 \<le> length (contained_indices P (geometry row))"
    and ex: "\<exists>j\<in>set (contained_indices P (geometry row)). float_less (rs ! j) Infinity"
  shows "\<exists>k\<in>set (contained_indices P (geometry row)).
           float_less (rs ! k) Infinity \<and>
           (\<forall>j\<in>set (contained_indices P (geometry row)). \<not> float_less (rs ! j) (rs ! k)) \<and>
           (\<forall>j\<in>set (contained_indices P (geometry row)). j < k \<and> rs ! j \<noteq> NaN \<longrightarrow>
               float_less (rs ! k) (rs ! j)) \<and>
           for_loop (select_body rs) (contained_indices P (geometry row)) (Infinity, None)
             = Inr (rs ! k, Some k) \<and>
           assign_body P row rs = Inr (rs[k := float_add (rs ! k) (break_count row)])"
proof -
  let ?cis = "contained_indices P (geometry row)"
  have srt: "sorted_wrt (<) ?cis" by (rule sorted_contained)
  have rng: "\<forall>j\<in>set ?cis. j < length rs" using contained_lt[of _ P "geometry row"] len by auto
  from select_loop_start[OF srt rng ex] obtain k where
    k: "k \<in> set ?cis" "for_loop (select_body rs) ?cis (Infinity, None) = Inr (rs ! k, Some k)"
       "float_less (rs ! k) Infinity" "\<forall>j\<in>set ?cis. \<not> float_less (rs ! j) (rs ! k)"
       "\<forall>j\<in>set ?cis. j < k \<and> rs ! j \<noteq> NaN \<longrightarrow> float_less (rs ! k) (rs ! j)"
    by blast
  have kl: "k < length rs" using k(1) rng by blast
  have ne: "length ?cis \<noteq> 0" "length ?cis \<noteq> 1" using multi by auto
  have "assign_body P row rs = Inr (rs[k := float_add (rs ! k) (break_count row)])"
    unfolding assign_body_def Let_def using ne k(2) kl by (simp add: add_at_def)
  then show ?thesis using k by blast
qed

lemma assign_body_multi_none:
  assumes len: "length rs = length P" and multi: "2 \<le> length (contained_indices P (geometry row))"
    and no: "\<forall>j\<in>set (contained_indices P (geometry row)). \<not> float_less (rs ! j) Infinity"
  shows "for_loop (select_body rs) (contained_indices P (geometry row)) (Infinity, None)
             = Inr (Infinity, None) \<and>
         assign_body P row rs = Inl TypeError"
proof -
  let ?cis = "contained_indices P (geometry row)"
  have rng: "\<forall>j\<in>set ?cis. j < length rs" using contained_lt[of _ P "geometry row"] len by auto
  have scan: "for_loop (select_body rs) ?cis (Infinity, None) = Inr (Infinity, None)"
    by (rule select_loop_none) (use rng no in auto)
  have ne: "length ?cis \<noteq> 0" "length ?cis \<noteq> 1" using multi by auto
  have "assign_body P row rs = Inl TypeError"
    unfolding assign_body_def Let_def using ne scan by simp
  with scan show ?thesis by simp
qed

lemma assign_body_single:
  assumes len: "length rs = length P" and one: "contained_indices P (geometry row) = [k]"
  shows "assign_body P row rs = Inr (rs[k := float_add (rs ! k) (break_count row)])"
proof -
  have "k < length rs" using contained_lt[of k P "geometry row"] one len by simp
  then show ?thesis by (simp add: assign_body_def one add_at_def)
qed

text \<open>\<open>idxmin\<close>: the first position of the least entry that is a number.\<close>

lemma argmin_from_none:
  assumes "\<forall>d\<in>set ds. d = NaN"
  shows "argmin_from ds i None = None"
  using assms by (induction ds arbitrary: i) simp_all

lemma argmin_from_some:
  assumes "b < length pre" "i = length pre" "pre ! b \<noteq> NaN"
    and "\<forall>j<length pre. pre ! j \<noteq> NaN \<longrightarrow> \<not> float_less (pre ! j) (pre ! b)"
    and "\<forall>j<b. pre ! j \<noteq> NaN \<longrightarrow> float_less (pre ! b) (pre ! j)"
  shows "\<exists>k<length (pre @ ds). argmin_from ds i (Some (b, pre ! b)) = Some (k, (pre @ ds) ! k) \<and>
           (pre @ ds) ! k \<noteq> NaN \<and>
           (\<forall>j<length (pre @ ds). (pre @ ds) ! j \<noteq> NaN \<longrightarrow> \<not> float_less ((pre @ ds) ! j) ((pre @ ds) ! k)) \<and>
           (\<forall>j<k. (pre @ ds) ! j \<noteq> NaN \<longrightarrow> float_less ((pre @ ds) ! k) ((pre @ ds) ! j))"
  using assms
proof (induction ds arbitrary: pre b i)
  case Nil
  then show ?case by simp
next
  case (Cons d ds)
  let ?pre = "pre @ [d]"
  have app: "pre @ d # ds = ?pre @ ds" by simp
  have old: "\<And>j. j < length pre \<Longrightarrow> ?pre ! j = pre ! j" by (simp add: nth_append)
  have new: "?pre ! length pre = d" by simp
  show ?case
  proof (cases "d \<noteq> NaN \<and> float_less d (pre ! b)")
    case True
    have step: "argmin_from (d # ds) i (Some (b, pre ! b)) = argmin_from ds (Suc i) (Some (i, ?pre ! i))"
      using True Cons.prems(2) by simp
    have p1: "i < length ?pre" using Cons.prems(2) by simp
    have p2: "Suc i = length ?pre" using Cons.prems(2) by simp
    have p3: "?pre ! i \<noteq> NaN" using True Cons.prems(2) by simp
    have p4: "\<forall>j<length ?pre. ?pre ! j \<noteq> NaN \<longrightarrow> \<not> float_less (?pre ! j) (?pre ! i)"
    proof (intro allI impI)
      fix j assume j: "j < length ?pre" and jn: "?pre ! j \<noteq> NaN"
      show "\<not> float_less (?pre ! j) (?pre ! i)"
      proof (cases "j < length pre")
        case jl: True
        have "\<not> float_less (pre ! j) (pre ! b)" using Cons.prems(4) jl jn old by simp
        moreover have "float_less d (pre ! b)" using True by simp
        ultimately have "\<not> float_less (pre ! j) d"
          using float_less_trans by blast
        then show ?thesis using jl old Cons.prems(2) by simp
      next
        case False
        with j have "j = length pre" by simp
        then show ?thesis using Cons.prems(2) by (simp add: float_less_irrefl)
      qed
    qed
    have p5: "\<forall>j<i. ?pre ! j \<noteq> NaN \<longrightarrow> float_less (?pre ! i) (?pre ! j)"
    proof (intro allI impI)
      fix j assume j: "j < i" and jn: "?pre ! j \<noteq> NaN"
      have jl: "j < length pre" using j Cons.prems(2) by simp
      have "\<not> float_less (pre ! j) (pre ! b)" using Cons.prems(4) jl jn old by simp
      moreover have "float_less d (pre ! b)" using True by simp
      moreover have "pre ! j \<noteq> NaN" using jn jl old by simp
      ultimately have "float_less d (pre ! j)" by (metis float_less_le_trans)
      then show "float_less (?pre ! i) (?pre ! j)" using jl old Cons.prems(2) by simp
    qed
    from Cons.IH[OF p1 p2 p3 p4 p5] show ?thesis unfolding step app .
  next
    case False
    have step: "argmin_from (d # ds) i (Some (b, pre ! b)) = argmin_from ds (Suc i) (Some (b, ?pre ! b))"
      using False Cons.prems(1) by (auto simp: nth_append)
    have p1: "b < length ?pre" using Cons.prems(1) by simp
    have p2: "Suc i = length ?pre" using Cons.prems(2) by simp
    have p3: "?pre ! b \<noteq> NaN" using Cons.prems(1,3) old by simp
    have p4: "\<forall>j<length ?pre. ?pre ! j \<noteq> NaN \<longrightarrow> \<not> float_less (?pre ! j) (?pre ! b)"
    proof (intro allI impI)
      fix j assume j: "j < length ?pre" and jn: "?pre ! j \<noteq> NaN"
      show "\<not> float_less (?pre ! j) (?pre ! b)"
      proof (cases "j < length pre")
        case jl: True
        then show ?thesis using Cons.prems(1,4) jn old by simp
      next
        case False
        with j have je: "j = length pre" by simp
        with jn have "d \<noteq> NaN" by simp
        with \<open>\<not> (d \<noteq> NaN \<and> float_less d (pre ! b))\<close> have "\<not> float_less d (pre ! b)" by simp
        then show ?thesis using je Cons.prems(1) old by simp
      qed
    qed
    have p5: "\<forall>j<b. ?pre ! j \<noteq> NaN \<longrightarrow> float_less (?pre ! b) (?pre ! j)"
      using Cons.prems(1,5) old by simp
    from Cons.IH[OF p1 p2 p3 p4 p5] show ?thesis unfolding step app .
  qed
qed

lemma argmin_from_start:
  assumes "\<exists>d\<in>set ds. d \<noteq> NaN" "i = length pre" "\<forall>d\<in>set pre. d = NaN"
  shows "\<exists>k<length (pre @ ds). argmin_from ds i None = Some (k, (pre @ ds) ! k) \<and>
           (pre @ ds) ! k \<noteq> NaN \<and>
           (\<forall>j<length (pre @ ds). (pre @ ds) ! j \<noteq> NaN \<longrightarrow> \<not> float_less ((pre @ ds) ! j) ((pre @ ds) ! k)) \<and>
           (\<forall>j<k. (pre @ ds) ! j \<noteq> NaN \<longrightarrow> float_less ((pre @ ds) ! k) ((pre @ ds) ! j))"
  using assms
proof (induction ds arbitrary: pre i)
  case Nil
  then show ?case by simp
next
  case (Cons d ds)
  let ?pre = "pre @ [d]"
  have app: "pre @ d # ds = ?pre @ ds" by simp
  show ?case
  proof (cases "d = NaN")
    case True
    have step: "argmin_from (d # ds) i None = argmin_from ds (Suc i) None" using True by simp
    have p1: "\<exists>d\<in>set ds. d \<noteq> NaN" using Cons.prems(1) True by auto
    have p2: "Suc i = length ?pre" using Cons.prems(2) by simp
    have p3: "\<forall>d\<in>set ?pre. d = NaN" using Cons.prems(3) True by simp
    from Cons.IH[OF p1 p2 p3] show ?thesis unfolding step app .
  next
    case False
    have step: "argmin_from (d # ds) i None = argmin_from ds (Suc i) (Some (i, ?pre ! i))"
      using False Cons.prems(2) by simp
    have allnan: "\<And>j. j < length pre \<Longrightarrow> ?pre ! j = NaN"
      using Cons.prems(3) by (simp add: nth_append)
    have p1: "i < length ?pre" using Cons.prems(2) by simp
    have p2: "Suc i = length ?pre" using Cons.prems(2) by simp
    have p3: "?pre ! i \<noteq> NaN" using False Cons.prems(2) by simp
    have p4: "\<forall>j<length ?pre. ?pre ! j \<noteq> NaN \<longrightarrow> \<not> float_less (?pre ! j) (?pre ! i)"
    proof (intro allI impI)
      fix j assume j: "j < length ?pre" and jn: "?pre ! j \<noteq> NaN"
      have "\<not> j < length pre" using allnan jn by blast
      with j have "j = i" using Cons.prems(2) by simp
      then show "\<not> float_less (?pre ! j) (?pre ! i)" by (simp add: float_less_irrefl)
    qed
    have p5: "\<forall>j<i. ?pre ! j \<noteq> NaN \<longrightarrow> float_less (?pre ! i) (?pre ! j)"
      using allnan Cons.prems(2) by simp
    from argmin_from_some[OF p1 p2 p3 p4 p5, of ds] show ?thesis unfolding step app .
  qed
qed

lemma idxmin_all_nan:
  "\<forall>d\<in>set ds. d = NaN \<Longrightarrow> idxmin ds = Inl ValueError"
  by (simp add: idxmin_def argmin_from_none)

lemma idxmin_first_min:
  assumes "\<exists>d\<in>set ds. d \<noteq> NaN"
  shows "\<exists>k<length ds. idxmin ds = Inr k \<and> ds ! k \<noteq> NaN \<and>
           (\<forall>j<length ds. ds ! j \<noteq> NaN \<longrightarrow> \<not> float_less (ds ! j) (ds ! k)) \<and>
           (\<forall>j<k. ds ! j \<noteq> NaN \<longrightarrow> float_less (ds ! k) (ds ! j))"
proof -
  from argmin_from_start[OF assms, of 0 "[]"] obtain k where
    k: "k < length ds" "argmin_from ds 0 None = Some (k, ds ! k)" "ds ! k \<noteq> NaN"
       "\<forall>j<length ds. ds ! j \<noteq> NaN \<longrightarrow> \<not> float_less (ds ! j) (ds ! k)"
       "\<forall>j<k. ds ! j \<noteq> NaN \<longrightarrow> float_less (ds ! k) (ds ! j)"
    by auto
  have "idxmin ds = Inr k" using k(2) by (simp add: idxmin_def)
  with k show ?thesis by blast
qed

lemma assign_body_nearest:
  assumes none: "contained_indices P p = []"
    and num: "\<exists>j<length P. distance (P ! j) p \<noteq> NaN"
  shows "\<exists>k<length P. idxmin (map (\<lambda>g. distance g p) P) = Inr k \<and>
           distance (P ! k) p \<noteq> NaN \<and>
           (\<forall>j<length P. distance (P ! j) p \<noteq> NaN \<longrightarrow>
               \<not> float_less (distance (P ! j) p) (distance (P ! k) p)) \<and>
           (\<forall>j<k. distance (P ! j) p \<noteq> NaN \<longrightarrow>
               float_less (distance (P ! k) p) (distance (P ! j) p)) \<and>
           (\<forall>row rs. geometry row = p \<and> length rs = length P \<longrightarrow>
              assign_body P row rs = Inr (rs[k := float_add (rs ! k) (break_count row)]))"
proof -
  let ?ds = "map (\<lambda>g. distance g p) P"
  from num obtain j where "j < length P" "distance (P ! j) p \<noteq> NaN" by blast
  then have "distance (P ! j) p \<in> set ?ds" by auto
  with \<open>distance (P ! j) p \<noteq> NaN\<close> have "\<exists>d\<in>set ?ds. d \<noteq> NaN" by blast
  from idxmin_first_min[OF this] obtain k where
    k: "k < length ?ds" "idxmin ?ds = Inr k" "?ds ! k \<noteq> NaN"
       "\<forall>j<length ?ds. ?ds ! j \<noteq> NaN \<longrightarrow> \<not> float_less (?ds ! j) (?ds ! k)"
       "\<forall>j<k. ?ds ! j \<noteq> NaN \<longrightarrow> float_less (?ds ! k) (?ds ! j)"
    by blast
  have kl: "k < length P" using k(1) by simp
  have n: "distance (P ! k) p \<noteq> NaN" using k(3) kl by simp
  have a: "\<forall>j<length P. distance (P ! j) p \<noteq> NaN \<longrightarrow>
               \<not> float_less (distance (P ! j) p) (distance (P ! k) p)"
    using k(4) kl by simp
  have b: "\<forall>j<k. distance (P ! j) p \<noteq> NaN \<longrightarrow>
               float_less (distance (P ! k) p) (distance (P ! j) p)"
    using k(5) kl by simp
  have c: "\<forall>row rs. geometry row = p \<and> length rs = length P \<longrightarrow>
              assign_body P row rs = Inr (rs[k := float_add (rs ! k) (break_count row)])"
    using none k(2) kl by (simp add: assign_body_def add_at_def)
  show ?thesis using kl k(2) n a b c by blast
qed

lemma assign_body_all_nan:
  assumes none: "contained_indices P (geometry row) = []"
    and nan: "\<forall>j<length P. distance (P ! j) (geometry row) = NaN"
  shows "assign_body P row rs = Inl ValueError"
proof -
  have "\<forall>d\<in>set (map (\<lambda>g. distance g (geometry row)) P). d = NaN"
    using nan by (auto simp: in_set_conv_nth)
  then have "idxmin (map (\<lambda>g. distance g (geometry row)) P) = Inl ValueError"
    by (rule idxmin_all_nan)
  then show ?thesis using none by (simp add: assign_body_def)
qed

lemma assign_empty_facilities:
  "assign_body [] row rs = Inl ValueError"
  by (simp add: assign_body_def contained_indices_def idxmin_def)

subsection \<open>The claims about the assignment\<close>

text \<open>
  Claim C1 (conservation of demand). Whenever a pass of \<open>assign_breaks_to_points\<close>
  completes, the counts it returns, one per row of \<open>gdf_ausschreibung\<close>, add up to the sum of
  the \<open>Break_Number\<close> of all break points; when the \<open>Break_Number\<close> are numbers, so are the
  counts, and the two sums are equal as real numbers. Every completed step of the loop
  adds the point's count to exactly one entry of \<open>results_breaks\<close> and leaves the others as
  they were, so no point is dropped and none is counted twice.
\<close>

theorem conservation_of_demand:
  assumes "assign_breaks_to_points rows gdf P = Inr results"
  shows "float_sum results = float_sum (map break_count rows) \<and> length results = length gdf \<and>
         (\<forall>cs. map break_count rows = map Finite cs \<longrightarrow>
            (\<exists>rs. results = map Finite rs \<and> sum_list rs = sum_list cs)) \<and>
         (\<forall>row rs rs'. assign_body P row rs = Inr rs' \<longrightarrow>
            (\<exists>k<length rs. rs' = rs[k := float_add (rs ! k) (break_count row)]))"
proof -
  have run: "for_loop (assign_body P) rows (replicate (length gdf) (Finite 0)) = Inr results"
    using assms by (simp add: assign_breaks_to_points_def)
  from assign_loop_sum[OF run]
  have s: "float_sum results = float_sum (map break_count rows)" and l: "length results = length gdf"
    by (simp_all add: float_sum_replicate_zero float_add_zero)
  have f: "\<forall>cs. map break_count rows = map Finite cs \<longrightarrow>
            (\<exists>rs. results = map Finite rs \<and> sum_list rs = sum_list cs)"
  proof (intro allI impI)
    fix cs assume cs: "map break_count rows = map Finite cs"
    have "for_loop (assign_body P) rows (map Finite (replicate (length gdf) 0)) = Inr results"
      using run by simp
    from assign_loop_finite[OF this cs] obtain ys where ys: "results = map Finite ys" by blast
    have "float_sum results = Finite (sum_list ys)"
      by (simp only: ys float_sum_Finite)
    moreover have "float_sum (map break_count rows) = Finite (sum_list cs)"
      by (simp only: cs float_sum_Finite)
    ultimately have "Finite (sum_list ys) = Finite (sum_list cs)"
      using s by (simp only:)
    then show "\<exists>rs. results = map Finite rs \<and> sum_list rs = sum_list cs" using ys by auto
  qed
  from s l f show ?thesis using assign_body_Inr by blast
qed

theorem conservation_of_demand_witness:
  "assign_breaks_to_points
     [\<lparr>geometry = 3, break_count = Finite 7\<rparr>, \<lparr>geometry = 4, break_count = Finite 2\<rparr>,
      \<lparr>geometry = 200, break_count = Finite 5\<rparr>, \<lparr>geometry = -8, break_count = Finite 1\<rparr>]
     [(), (), ()]
     [interval 0 10, interval 5 10, interval 100 1] = Inr [Finite 8, Finite 2, Finite 5] \<and>
   float_sum [Finite 8, Finite 2, Finite 5] = float_sum [Finite 7, Finite 2, Finite 5, Finite 1] \<and>
   sum_list [8, 2, 5 :: real] = sum_list [7, 2, 5, 1]"
proof -
  let ?rows = "[\<lparr>geometry = 3 :: real, break_count = Finite 7\<rparr>, \<lparr>geometry = 4, break_count = Finite 2\<rparr>,
      \<lparr>geometry = 200, break_count = Finite 5\<rparr>, \<lparr>geometry = -8, break_count = Finite 1\<rparr>]"
  have run: "assign_breaks_to_points ?rows [(), (), ()]
     [interval 0 10, interval 5 10, interval 100 1] = Inr [Finite 8, Finite 2, Finite 5]"
    by (simp add: assign_eval)
  from conservation_of_demand[OF run]
  have "float_sum [Finite 8, Finite 2, Finite 5] = float_sum (map break_count ?rows)" by blast
  with run show ?thesis by simp
qed

text \<open>
  Claim C5 (greedy balancing, immediately visible). Two or more circles contain the
  point, and \<open>results_breaks\<close> has one entry per circle. When the counts are numbers the
  point's count goes to the containing circle \<open>k\<close> whose entry of \<open>results_breaks\<close> is
  the smallest among the containing ones at that moment, the one of lowest index when
  several are equal; the rest of the loop runs on the list so updated. The same holds of
  any floats as long as the count of some containing circle is below \<open>inf\<close>: no
  containing circle has an entry smaller than that of \<open>k\<close>.
\<close>

theorem greedy_load_balancing:
  assumes "length results = length P"
    and "2 \<le> length (contained_indices P (geometry row))"
  shows "((\<exists>j\<in>set (contained_indices P (geometry row)). float_less (results ! j) Infinity) \<longrightarrow>
          (\<exists>k\<in>set (contained_indices P (geometry row)).
             (\<forall>j\<in>set (contained_indices P (geometry row)). \<not> float_less (results ! j) (results ! k)) \<and>
             (\<forall>j\<in>set (contained_indices P (geometry row)). j < k \<and> results ! j \<noteq> NaN \<longrightarrow>
                 float_less (results ! k) (results ! j)) \<and>
             assign_body P row results = Inr (results[k := float_add (results ! k) (break_count row)]) \<and>
             (\<forall>rows. for_loop (assign_body P) (row # rows) results =
                      for_loop (assign_body P) rows (results[k := float_add (results ! k) (break_count row)])))) \<and>
         (\<forall>xs. results = map Finite xs \<longrightarrow>
          (\<exists>k\<in>set (contained_indices P (geometry row)).
             (\<forall>j\<in>set (contained_indices P (geometry row)). xs ! k \<le> xs ! j) \<and>
             (\<forall>j\<in>set (contained_indices P (geometry row)). j < k \<longrightarrow> xs ! k < xs ! j) \<and>
             assign_body P row results = Inr (results[k := float_add (results ! k) (break_count row)]) \<and>
             (\<forall>rows. for_loop (assign_body P) (row # rows) results =
                      for_loop (assign_body P) rows (results[k := float_add (results ! k) (break_count row)]))))"
proof -
  let ?cis = "contained_indices P (geometry row)"
  have general: "\<exists>k\<in>set ?cis.
             (\<forall>j\<in>set ?cis. \<not> float_less (results ! j) (results ! k)) \<and>
             (\<forall>j\<in>set ?cis. j < k \<and> results ! j \<noteq> NaN \<longrightarrow> float_less (results ! k) (results ! j)) \<and>
             assign_body P row results = Inr (results[k := float_add (results ! k) (break_count row)]) \<and>
             (\<forall>rows. for_loop (assign_body P) (row # rows) results =
                      for_loop (assign_body P) rows (results[k := float_add (results ! k) (break_count row)]))"
    if ex: "\<exists>j\<in>set ?cis. float_less (results ! j) Infinity"
  proof -
    from assign_body_multi[OF assms ex] obtain k where
      k: "k \<in> set ?cis"
         "\<forall>j\<in>set ?cis. \<not> float_less (results ! j) (results ! k)"
         "\<forall>j\<in>set ?cis. j < k \<and> results ! j \<noteq> NaN \<longrightarrow> float_less (results ! k) (results ! j)"
         "assign_body P row results = Inr (results[k := float_add (results ! k) (break_count row)])"
      by blast
    have "\<forall>rows. for_loop (assign_body P) (row # rows) results =
                    for_loop (assign_body P) rows (results[k := float_add (results ! k) (break_count row)])"
      by (simp add: k(4))
    with k show ?thesis by blast
  qed
  have numeric: "\<exists>k\<in>set ?cis.
             (\<forall>j\<in>set ?cis. xs ! k \<le> xs ! j) \<and>
             (\<forall>j\<in>set ?cis. j < k \<longrightarrow> xs ! k < xs ! j) \<and>
             assign_body P row results = Inr (results[k := float_add (results ! k) (break_count row)]) \<and>
             (\<forall>rows. for_loop (assign_body P) (row # rows) results =
                      for_loop (assign_body P) rows (results[k := float_add (results ! k) (break_count row)]))"
    if xs: "results = map Finite xs" for xs
  proof -
    have val: "\<And>j. j \<in> set ?cis \<Longrightarrow> results ! j = Finite (xs ! j)"
      using contained_lt[of _ P "geometry row"] assms(1) xs by auto
    from assms(2) obtain c where c: "c \<in> set ?cis" by (cases ?cis) auto
    have "float_less (results ! c) Infinity" using val[OF c] by simp
    with c have ex: "\<exists>j\<in>set ?cis. float_less (results ! j) Infinity" by blast
    from general[OF ex] obtain k where
      k: "k \<in> set ?cis"
         "\<forall>j\<in>set ?cis. \<not> float_less (results ! j) (results ! k)"
         "\<forall>j\<in>set ?cis. j < k \<and> results ! j \<noteq> NaN \<longrightarrow> float_less (results ! k) (results ! j)"
         "assign_body P row results = Inr (results[k := float_add (results ! k) (break_count row)])"
         "\<forall>rows. for_loop (assign_body P) (row # rows) results =
                      for_loop (assign_body P) rows (results[k := float_add (results ! k) (break_count row)])"
      by blast
    have le: "\<forall>j\<in>set ?cis. xs ! k \<le> xs ! j"
    proof
      fix j assume j: "j \<in> set ?cis"
      with k(2) have "\<not> float_less (results ! j) (results ! k)" by blast
      then show "xs ! k \<le> xs ! j" using val[OF j] val[OF k(1)] by simp
    qed
    have lt: "\<forall>j\<in>set ?cis. j < k \<longrightarrow> xs ! k < xs ! j"
    proof (intro ballI impI)
      fix j assume j: "j \<in> set ?cis" and "j < k"
      moreover have "results ! j \<noteq> NaN" using val[OF j] by simp
      ultimately have "float_less (results ! k) (results ! j)" using k(3) by blast
      then show "xs ! k < xs ! j" using val[OF j] val[OF k(1)] by simp
    qed
    from k(1) le lt k(4,5) show ?thesis by blast
  qed
  from general numeric show ?thesis by blast
qed

theorem greedy_load_balancing_witness:
  "length [Finite 5, Finite 2] = length [interval 0 10, interval 5 10] \<and>
   contained_indices [interval 0 10, interval 5 10] (geometry \<lparr>geometry = 3 :: real, break_count = Finite 7\<rparr>) = [0, 1] \<and>
   assign_body [interval 0 10, interval 5 10] \<lparr>geometry = 3, break_count = Finite 7\<rparr> [Finite 5, Finite 2]
     = Inr [Finite 5, Finite 9] \<and>
   for_loop (assign_body [interval 0 10, interval 5 10])
     [\<lparr>geometry = 3, break_count = Finite 7\<rparr>, \<lparr>geometry = 4, break_count = Finite 1\<rparr>] [Finite 5, Finite 2]
     = Inr [Finite 6, Finite 9]"
proof -
  let ?P = "[interval 0 10, interval 5 10]"
  let ?row = "\<lparr>geometry = 3 :: real, break_count = Finite 7\<rparr>"
  have ci: "contained_indices ?P (geometry ?row) = [0, 1]"
    by (simp add: contained_indices_def interval_def)
  have h1: "length [Finite 5, Finite 2] = length ?P" by simp
  have h2: "2 \<le> length (contained_indices ?P (geometry ?row))"
    unfolding ci by simp
  have h3: "[Finite 5, Finite 2] = map Finite [5, 2]" by simp
  note g = greedy_load_balancing[OF h1 h2, THEN conjunct2, rule_format, OF h3]
  from g obtain k where
    k: "k \<in> set [0, 1::nat]" "\<forall>j\<in>set [0, 1::nat]. [5, 2 :: real] ! k \<le> [5, 2] ! j"
       "assign_body ?P ?row [Finite 5, Finite 2]
          = Inr ([Finite 5, Finite 2][k := float_add ([Finite 5, Finite 2] ! k) (break_count ?row)])"
       "\<forall>rows. for_loop (assign_body ?P) (?row # rows) [Finite 5, Finite 2] =
                    for_loop (assign_body ?P) rows ([Finite 5, Finite 2][k := float_add ([Finite 5, Finite 2] ! k) (break_count ?row)])"
    unfolding ci by blast
  have "k = 1" using k(1,2) by auto
  have step: "assign_body ?P ?row [Finite 5, Finite 2] = Inr [Finite 5, Finite 9]"
    using k(3) \<open>k = 1\<close> by simp
  have "for_loop (assign_body ?P) [?row, \<lparr>geometry = 4, break_count = Finite 1\<rparr>] [Finite 5, Finite 2]
     = for_loop (assign_body ?P) [\<lparr>geometry = 4, break_count = Finite 1\<rparr>] [Finite 5, Finite 9]"
    using k(4) \<open>k = 1\<close> by simp
  also have "\<dots> = Inr [Finite 6, Finite 9]"
    by (simp add: assign_eval)
  finally show ?thesis using ci step by simp
qed

text \<open>
  Claim C6 says that a point contained in no catchment always goes to the nearest one,
  catchments of radius 0 included. With radius 0 every buffer is an empty polygon, every
  distance is \<open>nan\<close>, and \<open>idxmin\<close> raises \<open>ValueError\<close>: the step and the pass fail.
\<close>

theorem nearest_fallback_counterexample:
  "contained_indices [interval 0 0, interval 10 0, interval 4 0] 3 = [] \<and>
   map (\<lambda>g. distance g 3) [interval 0 0, interval 10 0, interval 4 0] = [NaN, NaN, NaN] \<and>
   assign_body [interval 0 0, interval 10 0, interval 4 0] \<lparr>geometry = 3, break_count = Finite 7\<rparr>
     [Finite 0, Finite 50, Finite 100] = Inl ValueError \<and>
   assign_breaks_to_points [\<lparr>geometry = 3, break_count = Finite 7\<rparr>] [(), (), ()]
     [interval 0 0, interval 10 0, interval 4 0] = Inl ValueError"
  by (simp add: assign_eval)

text \<open>
  Claim C6, amended (nearest circle when none contains the point). When no circle
  contains the point and the distance of at least one circle is a number, the count goes
  to the position \<open>idxmin\<close> returns: a circle whose distance is a number that no other
  numeric distance undercuts, the first such. The position depends on the distances only,
  whatever counts \<open>results_breaks\<close> holds. When every distance is \<open>nan\<close> (empty buffers), the
  step raises \<open>ValueError\<close>.
\<close>

theorem nearest_fallback:
  assumes "contained_indices P p = []"
  shows "((\<exists>j<length P. distance (P ! j) p \<noteq> NaN) \<longrightarrow>
          (\<exists>k<length P. idxmin (map (\<lambda>g. distance g p) P) = Inr k \<and>
             distance (P ! k) p \<noteq> NaN \<and>
             (\<forall>j<length P. distance (P ! j) p \<noteq> NaN \<longrightarrow>
                 \<not> float_less (distance (P ! j) p) (distance (P ! k) p)) \<and>
             (\<forall>j<k. distance (P ! j) p \<noteq> NaN \<longrightarrow>
                 float_less (distance (P ! k) p) (distance (P ! j) p)) \<and>
             (\<forall>row results. geometry row = p \<and> length results = length P \<longrightarrow>
                assign_body P row results
                  = Inr (results[k := float_add (results ! k) (break_count row)])))) \<and>
         ((\<forall>j<length P. distance (P ! j) p = NaN) \<longrightarrow>
          (\<forall>row results. geometry row = p \<longrightarrow> assign_body P row results = Inl ValueError))"
proof (intro conjI impI)
  assume "\<exists>j<length P. distance (P ! j) p \<noteq> NaN"
  with assms show "\<exists>k<length P. idxmin (map (\<lambda>g. distance g p) P) = Inr k \<and>
             distance (P ! k) p \<noteq> NaN \<and>
             (\<forall>j<length P. distance (P ! j) p \<noteq> NaN \<longrightarrow>
                 \<not> float_less (distance (P ! j) p) (distance (P ! k) p)) \<and>
             (\<forall>j<k. distance (P ! j) p \<noteq> NaN \<longrightarrow>
                 float_less (distance (P ! k) p) (distance (P ! j) p)) \<and>
             (\<forall>row results. geometry row = p \<and> length results = length P \<longrightarrow>
                assign_body P row results
                  = Inr (results[k := float_add (results ! k) (break_count row)]))"
    by (rule assign_body_nearest)
next
  assume nan: "\<forall>j<length P. distance (P ! j) p = NaN"
  show "\<forall>row results. geometry row = p \<longrightarrow> assign_body P row results = Inl ValueError"
    using assms nan assign_body_all_nan by blast
qed

theorem nearest_fallback_witness:
  "contained_indices [interval 0 1, interval 10 1, interval 5 1] 3 = [] \<and>
   map (\<lambda>g. distance g 3) [interval 0 1, interval 10 1, interval 5 1] = [Finite 2, Finite 6, Finite 1] \<and>
   idxmin (map (\<lambda>g. distance g 3) [interval 0 1, interval 10 1, interval 5 1]) = Inr 2 \<and>
   assign_body [interval 0 1, interval 10 1, interval 5 1] \<lparr>geometry = 3, break_count = Finite 7\<rparr>
     [Finite 0, Finite 50, Finite 100] = Inr [Finite 0, Finite 50, Finite 107]"
proof -
  let ?P = "[interval 0 1, interval 10 1, interval 5 1]"
  have h: "contained_indices ?P 3 = []"
    by (simp add: contained_indices_def interval_def)
  have d: "map (\<lambda>g. distance g 3) ?P = [Finite 2, Finite 6, Finite 1]"
    by (simp add: interval_def)
  have i: "idxmin (map (\<lambda>g. distance g 3) ?P) = Inr 2"
    unfolding d by (simp add: idxmin_def)
  have num: "\<exists>j<length ?P. distance (?P ! j) 3 \<noteq> NaN"
    by (rule exI[of _ 0]) (simp add: interval_def)
  from nearest_fallback[OF h] num obtain k where
    k: "idxmin (map (\<lambda>g. distance g 3) ?P) = Inr k"
       "\<forall>row results. geometry row = 3 \<and> length results = length ?P \<longrightarrow>
              assign_body ?P row results = Inr (results[k := float_add (results ! k) (break_count row)])"
    by blast
  have "k = 2" using k(1) i by simp
  have "assign_body ?P \<lparr>geometry = 3, break_count = Finite 7\<rparr> [Finite 0, Finite 50, Finite 100]
     = Inr ([Finite 0, Finite 50, Finite 100][k := float_add ([Finite 0, Finite 50, Finite 100] ! k)
               (break_count \<lparr>geometry = 3 :: real, break_count = Finite 7\<rparr>)])"
    using k(2) by simp
  then show ?thesis using h d i \<open>k = 2\<close> by simp
qed

text \<open>
  Claim C7 says a pass over no circles always aborts. With no break points the loop body
  never runs and the pass returns the empty list of counts.
\<close>

theorem empty_facilities_counterexample:
  "assign_breaks_to_points ([] :: real break_point list) ([] :: unit list) [] = Inr []"
  by (simp add: assign_breaks_to_points_def)

text \<open>
  Claim C7, amended (no circles). With at least one break point, a pass over an empty
  list of circles ends at the first point with the \<open>ValueError\<close> of \<open>idxmin\<close> on an empty
  series, and returns no counts.
\<close>

theorem empty_facilities_abort:
  assumes "rows \<noteq> []"
  shows "assign_breaks_to_points rows gdf [] = Inl ValueError"
proof -
  from assms obtain row rest where "rows = row # rest" by (cases rows) auto
  then show ?thesis by (simp add: assign_breaks_to_points_def assign_empty_facilities)
qed

theorem empty_facilities_abort_witness:
  "[\<lparr>geometry = 3 :: real, break_count = Finite 7\<rparr>] \<noteq> [] \<and>
   assign_breaks_to_points [\<lparr>geometry = 3 :: real, break_count = Finite 7\<rparr>] ([] :: unit list) [] = Inl ValueError"
proof -
  have h: "[\<lparr>geometry = 3 :: real, break_count = Finite 7\<rparr>] \<noteq> []" by simp
  from empty_facilities_abort[OF h] show ?thesis by simp
qed

text \<open>
  Claim C10 says the scan always selects a circle because every count is finite. Nothing
  keeps the counts finite: after two break points with \<open>Break_Number\<close> \<open>inf\<close> both circles
  hold \<open>inf\<close>, \<open>inf < inf\<close> is False for every candidate of the third point,
  \<open>selected_kreis\<close> stays \<open>None\<close> and line 170 raises \<open>TypeError\<close>.
\<close>

theorem selection_total_counterexample:
  "contained_indices [interval 0 10, interval 5 10] 3 = [0, 1] \<and>
   for_loop (select_body [Infinity, Infinity]) [0, 1] (Infinity, None) = Inr (Infinity, None) \<and>
   assign_body [interval 0 10, interval 5 10] \<lparr>geometry = 3, break_count = Finite 7\<rparr>
     [Infinity, Infinity] = Inl TypeError \<and>
   assign_breaks_to_points
     [\<lparr>geometry = 3, break_count = Infinity\<rparr>, \<lparr>geometry = 3, break_count = Infinity\<rparr>,
      \<lparr>geometry = 3, break_count = Finite 7\<rparr>]
     [(), ()] [interval 0 10, interval 5 10] = Inl TypeError"
  by (simp add: assign_eval)

text \<open>
  Claim C10, amended (when the selection is total). Let the circles containing the point
  be \<open>c # cs\<close>, with one entry of \<open>results_breaks\<close> per circle. With one containing circle
  the step adds the count to it. With several, the scan started at \<open>(Infinity, None)\<close>
  ends with a selected index, and the step adds the count there, exactly when the count
  of some containing circle is below \<open>inf\<close>; otherwise the scan ends at \<open>None\<close> and the
  step raises \<open>TypeError\<close>. In particular, when the counts of the containing circles are
  numbers, the first candidate replaces \<open>(Infinity, None)\<close> and the step succeeds.
\<close>

theorem selection_total:
  assumes "length results = length P"
    and "contained_indices P (geometry row) = c # cs"
  shows "(cs = [] \<longrightarrow>
            assign_body P row results = Inr (results[c := float_add (results ! c) (break_count row)])) \<and>
         (cs \<noteq> [] \<and> (\<exists>j\<in>set (c # cs). float_less (results ! j) Infinity) \<longrightarrow>
            (\<exists>k\<in>set (c # cs). float_less (results ! k) Infinity \<and>
               for_loop (select_body results) (c # cs) (Infinity, None) = Inr (results ! k, Some k) \<and>
               assign_body P row results
                 = Inr (results[k := float_add (results ! k) (break_count row)]))) \<and>
         (cs \<noteq> [] \<and> (\<forall>j\<in>set (c # cs). \<not> float_less (results ! j) Infinity) \<longrightarrow>
            for_loop (select_body results) (c # cs) (Infinity, None) = Inr (Infinity, None) \<and>
            assign_body P row results = Inl TypeError) \<and>
         ((\<forall>j\<in>set (c # cs). \<exists>x. results ! j = Finite x) \<longrightarrow>
            select_body results c (Infinity, None) = Inr (results ! c, Some c) \<and>
            (\<exists>k\<in>set (c # cs). assign_body P row results
                 = Inr (results[k := float_add (results ! k) (break_count row)])))"
proof -
  have cl: "c < length results"
    using contained_lt[of c P "geometry row"] assms by simp
  have one: "cs = [] \<longrightarrow>
            assign_body P row results = Inr (results[c := float_add (results ! c) (break_count row)])"
    using assign_body_single[OF assms(1), of row c] assms(2) by simp
  have multi: "cs \<noteq> [] \<Longrightarrow> 2 \<le> length (contained_indices P (geometry row))"
    using assms(2) by (cases cs) simp_all
  have some: "cs \<noteq> [] \<and> (\<exists>j\<in>set (c # cs). float_less (results ! j) Infinity) \<longrightarrow>
            (\<exists>k\<in>set (c # cs). float_less (results ! k) Infinity \<and>
               for_loop (select_body results) (c # cs) (Infinity, None) = Inr (results ! k, Some k) \<and>
               assign_body P row results
                 = Inr (results[k := float_add (results ! k) (break_count row)]))"
  proof
    assume a: "cs \<noteq> [] \<and> (\<exists>j\<in>set (c # cs). float_less (results ! j) Infinity)"
    then have ex: "\<exists>j\<in>set (contained_indices P (geometry row)). float_less (results ! j) Infinity"
      using assms(2) by simp
    from assign_body_multi[OF assms(1) multi ex] a
    show "\<exists>k\<in>set (c # cs). float_less (results ! k) Infinity \<and>
               for_loop (select_body results) (c # cs) (Infinity, None) = Inr (results ! k, Some k) \<and>
               assign_body P row results
                 = Inr (results[k := float_add (results ! k) (break_count row)])"
      unfolding assms(2) by blast
  qed
  have none: "cs \<noteq> [] \<and> (\<forall>j\<in>set (c # cs). \<not> float_less (results ! j) Infinity) \<longrightarrow>
            for_loop (select_body results) (c # cs) (Infinity, None) = Inr (Infinity, None) \<and>
            assign_body P row results = Inl TypeError"
  proof
    assume a: "cs \<noteq> [] \<and> (\<forall>j\<in>set (c # cs). \<not> float_less (results ! j) Infinity)"
    then have no: "\<forall>j\<in>set (contained_indices P (geometry row)). \<not> float_less (results ! j) Infinity"
      using assms(2) by simp
    from assign_body_multi_none[OF assms(1) multi no] a
    show "for_loop (select_body results) (c # cs) (Infinity, None) = Inr (Infinity, None) \<and>
            assign_body P row results = Inl TypeError"
      unfolding assms(2) by blast
  qed
  have fin: "(\<forall>j\<in>set (c # cs). \<exists>x. results ! j = Finite x) \<longrightarrow>
            select_body results c (Infinity, None) = Inr (results ! c, Some c) \<and>
            (\<exists>k\<in>set (c # cs). assign_body P row results
                 = Inr (results[k := float_add (results ! k) (break_count row)]))"
  proof
    assume f: "\<forall>j\<in>set (c # cs). \<exists>x. results ! j = Finite x"
    then have lt: "\<forall>j\<in>set (c # cs). float_less (results ! j) Infinity" by auto
    have first: "select_body results c (Infinity, None) = Inr (results ! c, Some c)"
      using lt cl by (simp add: select_body_def)
    have "\<exists>k\<in>set (c # cs). assign_body P row results
                 = Inr (results[k := float_add (results ! k) (break_count row)])"
    proof (cases "cs = []")
      case True
      with one show ?thesis by simp
    next
      case False
      with some lt show ?thesis by auto
    qed
    with first show "select_body results c (Infinity, None) = Inr (results ! c, Some c) \<and>
            (\<exists>k\<in>set (c # cs). assign_body P row results
                 = Inr (results[k := float_add (results ! k) (break_count row)]))"
      by simp
  qed
  from one some none fin show ?thesis by blast
qed

theorem selection_total_witness:
  "length [Finite 5, Finite 2, Finite 2] = length [interval 0 10, interval 5 10, interval 6 10] \<and>
   contained_indices [interval 0 10, interval 5 10, interval 6 10]
      (geometry \<lparr>geometry = 3 :: real, break_count = Finite 7\<rparr>) = [0, 1, 2] \<and>
   select_body [Finite 5, Finite 2, Finite 2] 0 (Infinity, None) = Inr (Finite 5, Some 0) \<and>
   for_loop (select_body [Finite 5, Finite 2, Finite 2]) [0, 1, 2] (Infinity, None) = Inr (Finite 2, Some 1) \<and>
   assign_body [interval 0 10, interval 5 10, interval 6 10] \<lparr>geometry = 3, break_count = Finite 7\<rparr>
     [Finite 5, Finite 2, Finite 2] = Inr [Finite 5, Finite 9, Finite 2]"
proof -
  let ?P = "[interval 0 10, interval 5 10, interval 6 10]"
  let ?rs = "[Finite 5, Finite 2, Finite 2]"
  have h1: "length ?rs = length ?P" by simp
  have h2: "contained_indices ?P (geometry \<lparr>geometry = 3 :: real, break_count = Finite 7\<rparr>) = [0, 1, 2]"
    by (simp add: contained_indices_def interval_def)
  have l: "for_loop (select_body ?rs) [0, 1, 2] (Infinity, None) = Inr (Finite 2, Some 1)"
    by (simp add: select_body_def)
  have a: "assign_body ?P \<lparr>geometry = 3, break_count = Finite 7\<rparr> ?rs = Inr [Finite 5, Finite 9, Finite 2]"
    by (simp add: assign_eval)
  have f: "\<forall>j\<in>set [0, 1, 2 :: nat]. \<exists>x. ?rs ! j = Finite x" by simp
  from selection_total[OF h1 h2] f
  have "select_body ?rs 0 (Infinity, None) = Inr (?rs ! 0, Some 0)" by blast
  then show ?thesis using h1 h2 l a by simp
qed

section \<open>Properties of the segmentation\<close>

subsection \<open>Auxiliary facts\<close>

text \<open>Unfolding the loops on concrete inputs.\<close>

lemmas seg_eval = single_trip_def double_trip_def single_edge_def double_edge_def new_break_def
  getitem_def example_lookups_def DISTANCE_THRESHOLD_def initial_state_def Let_def

lemmas main_eval = main_breaks_def df_traffic_flow_filtered_def df_traffic_flow_filtered_two_driver_def
  MAX_DISTANCE_SINGLEDRIVER_def

text \<open>What one edge and one trip append to \<open>dict_break\<close>.\<close>

lemma new_break_Inr:
  "new_break L index driver nr ty e t = Inr b \<Longrightarrow>
     Trip_ID b = index \<and> Driver b = driver \<and> Break_Nr b = nr \<and> Break_Type b = ty \<and>
     Edge b = e \<and> Break_Number b = t"
  by (auto simp: new_break_def split: sum.splits)

lemma single_edge_Inr:
  assumes "single_edge L rng index t e s = Inr s'"
  shows "randint_calls s' = Suc (randint_calls s) \<and>
         ((dict_break s' = dict_break s \<and> breaks s' = breaks s) \<or>
          (\<exists>b. dict_break s' = dict_break s @ [b] \<and> breaks s' = Suc (breaks s) \<and>
               Break_Nr b = Suc (breaks s) \<and> Trip_ID b = index \<and> Driver b = 1 \<and>
               Break_Type b = (if odd (Suc (breaks s)) then ''short'' else ''long'')))"
  using assms
  by (auto simp: single_edge_def Let_def odd_iff_mod_2_eq_one split: sum.splits if_splits dest!: new_break_Inr)

lemma single_loop_breaks:
  assumes "for_loop (single_edge L rng index t) es s = Inr s'"
  shows "\<exists>evs. dict_break s' = dict_break s @ evs \<and> breaks s' = breaks s + length evs \<and>
           (\<forall>k<length evs. Break_Nr (evs ! k) = breaks s + k + 1 \<and> Trip_ID (evs ! k) = index \<and>
              Driver (evs ! k) = 1 \<and>
              Break_Type (evs ! k) = (if odd (breaks s + k + 1) then ''short'' else ''long''))"
  using assms
proof (induction es arbitrary: s)
  case Nil
  then show ?case by simp
next
  case (Cons e es)
  from Cons.prems obtain s1 where s1: "single_edge L rng index t e s = Inr s1"
    and rest: "for_loop (single_edge L rng index t) es s1 = Inr s'"
    by (auto split: sum.splits)
  from Cons.IH[OF rest] obtain evs where
    evs: "dict_break s' = dict_break s1 @ evs" "breaks s' = breaks s1 + length evs"
      "\<forall>k<length evs. Break_Nr (evs ! k) = breaks s1 + k + 1 \<and> Trip_ID (evs ! k) = index \<and>
              Driver (evs ! k) = 1 \<and>
              Break_Type (evs ! k) = (if odd (breaks s1 + k + 1) then ''short'' else ''long'')"
    by blast
  from single_edge_Inr[OF s1] consider
    (quiet) "dict_break s1 = dict_break s" "breaks s1 = breaks s"
    | (brk) b where "dict_break s1 = dict_break s @ [b]" "breaks s1 = Suc (breaks s)"
        "Break_Nr b = Suc (breaks s)" "Trip_ID b = index" "Driver b = 1"
        "Break_Type b = (if odd (Suc (breaks s)) then ''short'' else ''long'')"
    by blast
  then show ?case
  proof cases
    case quiet
    with evs show ?thesis by auto
  next
    case brk
    have "\<forall>k<length (b # evs). Break_Nr ((b # evs) ! k) = breaks s + k + 1 \<and> Trip_ID ((b # evs) ! k) = index \<and>
              Driver ((b # evs) ! k) = 1 \<and>
              Break_Type ((b # evs) ! k) = (if odd (breaks s + k + 1) then ''short'' else ''long'')"
    proof (intro allI impI)
      fix k assume "k < length (b # evs)"
      show "Break_Nr ((b # evs) ! k) = breaks s + k + 1 \<and> Trip_ID ((b # evs) ! k) = index \<and>
              Driver ((b # evs) ! k) = 1 \<and>
              Break_Type ((b # evs) ! k) = (if odd (breaks s + k + 1) then ''short'' else ''long'')"
      proof (cases k)
        case 0
        with brk show ?thesis by simp
      next
        case (Suc k')
        with \<open>k < length (b # evs)\<close> have "k' < length evs" by simp
        with evs(3) brk(2) Suc show ?thesis by simp
      qed
    qed
    moreover have "dict_break s' = dict_break s @ (b # evs)" using evs(1) brk(1) by simp
    moreover have "breaks s' = breaks s + length (b # evs)" using evs(2) brk(2) by simp
    ultimately show ?thesis by blast
  qed
qed

lemma double_edge_Inr:
  assumes "double_edge L rng index t e s = Inr s'"
  shows "randint_calls s' = Suc (randint_calls s) \<and>
         ((dict_break s' = dict_break s \<and> breaks s' = breaks s \<and> breaks_reset s' = breaks_reset s) \<or>
          (\<exists>b. dict_break s' = dict_break s @ [b] \<and> breaks s' = Suc (breaks s) \<and>
               breaks_reset s' = (if breaks_reset s \<le> 2 then breaks_reset s + 1 else 0) \<and>
               Break_Nr b = Suc (breaks s) \<and> Trip_ID b = index \<and> Driver b = 2 \<and>
               Break_Type b = (if breaks_reset s \<le> 2 then ''short'' else ''long'')))"
  using assms
  by (auto simp: double_edge_def Let_def split: sum.splits if_splits dest!: new_break_Inr)

lemma double_loop_breaks:
  assumes "for_loop (double_edge L rng index t) es s = Inr s'" and "breaks_reset s \<le> 3"
  shows "\<exists>evs. dict_break s' = dict_break s @ evs \<and> breaks s' = breaks s + length evs \<and>
           breaks_reset s' = (breaks_reset s + length evs) mod 4 \<and>
           (\<forall>k<length evs. Break_Nr (evs ! k) = breaks s + k + 1 \<and> Trip_ID (evs ! k) = index \<and>
              Driver (evs ! k) = 2 \<and>
              Break_Type (evs ! k) = (if (breaks_reset s + k) mod 4 = 3 then ''long'' else ''short''))"
  using assms
proof (induction es arbitrary: s)
  case Nil
  then show ?case by simp
next
  case (Cons e es)
  from Cons.prems obtain s1 where s1: "double_edge L rng index t e s = Inr s1"
    and rest: "for_loop (double_edge L rng index t) es s1 = Inr s'"
    by (auto split: sum.splits)
  from double_edge_Inr[OF s1] consider
    (quiet) "dict_break s1 = dict_break s" "breaks s1 = breaks s" "breaks_reset s1 = breaks_reset s"
    | (brk) b where "dict_break s1 = dict_break s @ [b]" "breaks s1 = Suc (breaks s)"
        "breaks_reset s1 = (if breaks_reset s \<le> 2 then breaks_reset s + 1 else 0)"
        "Break_Nr b = Suc (breaks s)" "Trip_ID b = index" "Driver b = 2"
        "Break_Type b = (if breaks_reset s \<le> 2 then ''short'' else ''long'')"
    by blast
  then show ?case
  proof cases
    case quiet
    then have "breaks_reset s1 \<le> 3" using Cons.prems(2) by simp
    from Cons.IH[OF rest this] quiet show ?thesis by auto
  next
    case brk
    have r1: "breaks_reset s1 \<le> 3" using brk(3) Cons.prems(2) by auto
    have r1m: "breaks_reset s1 = (breaks_reset s + 1) mod 4"
    proof (cases "breaks_reset s \<le> 2")
      case True
      then show ?thesis using brk(3) by simp
    next
      case False
      with Cons.prems(2) have "breaks_reset s = 3" by simp
      then show ?thesis using brk(3) by simp
    qed
    from Cons.IH[OF rest r1] obtain evs where
      evs: "dict_break s' = dict_break s1 @ evs" "breaks s' = breaks s1 + length evs"
        "breaks_reset s' = (breaks_reset s1 + length evs) mod 4"
        "\<forall>k<length evs. Break_Nr (evs ! k) = breaks s1 + k + 1 \<and> Trip_ID (evs ! k) = index \<and>
              Driver (evs ! k) = 2 \<and>
              Break_Type (evs ! k) = (if (breaks_reset s1 + k) mod 4 = 3 then ''long'' else ''short'')"
      by blast
    have shift: "\<And>k. (breaks_reset s1 + k) mod 4 = (breaks_reset s + Suc k) mod 4"
      unfolding r1m by presburger
    have "\<forall>k<length (b # evs). Break_Nr ((b # evs) ! k) = breaks s + k + 1 \<and> Trip_ID ((b # evs) ! k) = index \<and>
              Driver ((b # evs) ! k) = 2 \<and>
              Break_Type ((b # evs) ! k) = (if (breaks_reset s + k) mod 4 = 3 then ''long'' else ''short'')"
    proof (intro allI impI)
      fix k assume kl: "k < length (b # evs)"
      show "Break_Nr ((b # evs) ! k) = breaks s + k + 1 \<and> Trip_ID ((b # evs) ! k) = index \<and>
              Driver ((b # evs) ! k) = 2 \<and>
              Break_Type ((b # evs) ! k) = (if (breaks_reset s + k) mod 4 = 3 then ''long'' else ''short'')"
      proof (cases k)
        case 0
        have "(breaks_reset s mod 4 = 3) = (\<not> breaks_reset s \<le> 2)" using Cons.prems(2) by auto
        with brk 0 show ?thesis by simp
      next
        case (Suc k')
        with kl have "k' < length evs" by simp
        with evs(4) brk(2) Suc shift[of k'] show ?thesis by simp
      qed
    qed
    moreover have "dict_break s' = dict_break s @ (b # evs)" using evs(1) brk(1) by simp
    moreover have "breaks s' = breaks s + length (b # evs)" using evs(2) brk(2) by simp
    moreover have "breaks_reset s' = (breaks_reset s + length (b # evs)) mod 4"
      using evs(3) shift[of "length evs"] by simp
    ultimately show ?thesis by blast
  qed
qed

text \<open>Exceptions of the loops.\<close>

lemma for_loop_fails:
  assumes "x \<in> set xs" and "\<And>t. \<exists>e. body x t = Inl e"
  shows "\<exists>e. for_loop body xs s = Inl e"
  using assms(1)
proof (induction xs arbitrary: s)
  case Nil
  then show ?case by simp
next
  case (Cons y ys)
  show ?case
  proof (cases "body y s")
    case (Inl e)
    then show ?thesis by simp
  next
    case (Inr s1)
    show ?thesis
    proof (cases "x = y")
      case True
      with assms(2)[of s] Inr show ?thesis by simp
    next
      case False
      with Cons.prems have "x \<in> set ys" by simp
      from Cons.IH[OF this, of s1] Inr show ?thesis by simp
    qed
  qed
qed

lemma for_loop_error_source:
  "for_loop body xs s = Inl e \<Longrightarrow> \<exists>x\<in>set xs. \<exists>t. body x t = Inl e"
proof (induction xs arbitrary: s)
  case Nil
  then show ?case by simp
next
  case (Cons y ys)
  then show ?case by (cases "body y s") auto
qed

lemma new_break_error: "new_break L i d nr ty e t = Inl err \<Longrightarrow> \<exists>k. err = KeyError k"
  by (auto simp: new_break_def getitem_def split: sum.splits option.splits)

lemma single_edge_error: "single_edge L rng i t e s = Inl err \<Longrightarrow> \<exists>k. err = KeyError k"
  by (auto simp: single_edge_def getitem_def Let_def split: sum.splits option.splits if_splits
      dest: new_break_error)

lemma double_edge_error: "double_edge L rng i t e s = Inl err \<Longrightarrow> \<exists>k. err = KeyError k"
  by (auto simp: double_edge_def getitem_def Let_def split: sum.splits option.splits if_splits
      dest: new_break_error)

lemma single_trip_error: "single_trip L rng ir s = Inl err \<Longrightarrow> \<exists>k. err = KeyError k"
  unfolding single_trip_def by (blast dest: for_loop_error_source single_edge_error)

lemma double_trip_error: "double_trip L rng ir s = Inl err \<Longrightarrow> \<exists>k. err = KeyError k"
  unfolding double_trip_def by (blast dest: for_loop_error_source double_edge_error)

lemma main_breaks_error: "main_breaks df L rng = Inl err \<Longrightarrow> \<exists>k. err = KeyError k"
  unfolding main_breaks_def
  by (auto split: sum.splits dest!: for_loop_error_source dest: single_trip_error double_trip_error)

lemma single_edge_missing:
  "dict_edge_length L e = None \<Longrightarrow> single_edge L rng i t e s = Inl (KeyError e)"
  by (simp add: single_edge_def getitem_def)

lemma double_edge_missing:
  "dict_edge_length L e = None \<Longrightarrow> double_edge L rng i t e s = Inl (KeyError e)"
  by (simp add: double_edge_def getitem_def)

lemma single_trip_missing:
  assumes "e \<in> set (Edge_path_E_road (snd ir))" "dict_edge_length L e = None"
  shows "\<exists>err. single_trip L rng ir s = Inl err"
  unfolding single_trip_def
  by (rule for_loop_fails[OF assms(1)]) (simp add: single_edge_missing[OF assms(2)])

lemma double_trip_missing:
  assumes "e \<in> set (Edge_path_E_road (snd ir))" "dict_edge_length L e = None"
  shows "\<exists>err. double_trip L rng ir s = Inl err"
  unfolding double_trip_def
  by (rule for_loop_fails[OF assms(1)]) (simp add: double_edge_missing[OF assms(2)])

lemma in_enumerate: "r \<in> set xs \<Longrightarrow> \<exists>i. (i, r) \<in> set (enumerate n xs)"
  by (force simp: in_set_conv_nth nth_enumerate_eq)

text \<open>The loops read the generator at the positions they advance over, and nowhere else.\<close>

lemma for_loop_agree:
  assumes step: "\<And>x s. x \<in> set xs \<Longrightarrow>
                   (\<forall>j<cost x. rng1 (randint_calls s + j) = rng2 (randint_calls s + j)) \<Longrightarrow>
                   f1 x s = f2 x s"
    and adv: "\<And>x s s'. x \<in> set xs \<Longrightarrow> f1 x s = Inr s' \<Longrightarrow>
                   randint_calls s' = randint_calls s + cost x"
    and agree: "\<forall>j<sum_list (map cost xs). rng1 (randint_calls s + j) = rng2 (randint_calls s + j)"
  shows "for_loop f1 xs (s :: seg_state) = for_loop f2 xs s \<and>
         (\<forall>s'. for_loop f1 xs s = Inr s' \<longrightarrow>
            randint_calls s' = randint_calls s + sum_list (map cost xs))"
  using assms
proof (induction xs arbitrary: s)
  case Nil
  then show ?case by simp
next
  case (Cons x xs)
  have here: "\<forall>j<cost x. rng1 (randint_calls s + j) = rng2 (randint_calls s + j)"
    using Cons.prems(3) by simp
  have eq: "f1 x s = f2 x s" using Cons.prems(1)[of x s] here by simp
  show ?case
  proof (cases "f1 x s")
    case (Inl e)
    moreover from Inl eq have "f2 x s = Inl e" by simp
    ultimately show ?thesis by simp
  next
    case (Inr s1)
    from Inr eq have f2: "f2 x s = Inr s1" by simp
    have c1: "randint_calls s1 = randint_calls s + cost x"
      using Cons.prems(2)[of x s s1] Inr by simp
    have later: "\<forall>j<sum_list (map cost xs). rng1 (randint_calls s1 + j) = rng2 (randint_calls s1 + j)"
    proof (intro allI impI)
      fix j assume "j < sum_list (map cost xs)"
      then have "cost x + j < sum_list (map cost (x # xs))" by simp
      with Cons.prems(3) have "rng1 (randint_calls s + (cost x + j)) = rng2 (randint_calls s + (cost x + j))"
        by blast
      then show "rng1 (randint_calls s1 + j) = rng2 (randint_calls s1 + j)"
        by (simp add: c1 add.assoc)
    qed
    have ih: "for_loop f1 xs s1 = for_loop f2 xs s1 \<and>
         (\<forall>s'. for_loop f1 xs s1 = Inr s' \<longrightarrow>
            randint_calls s' = randint_calls s1 + sum_list (map cost xs))"
      by (rule Cons.IH) (use Cons.prems(1,2) later in auto)
    with Inr f2 c1 show ?thesis by (simp add: add.assoc)
  qed
qed

lemma single_edge_agree:
  "rng1 (randint_calls s) = rng2 (randint_calls s) \<Longrightarrow>
     single_edge L rng1 i t e s = single_edge L rng2 i t e s"
  unfolding single_edge_def by (simp cong: sum.case_cong)

lemma double_edge_agree:
  "rng1 (randint_calls s) = rng2 (randint_calls s) \<Longrightarrow>
     double_edge L rng1 i t e s = double_edge L rng2 i t e s"
  unfolding double_edge_def by (simp cong: sum.case_cong)

lemma single_edge_calls:
  "single_edge L rng i t e s = Inr s' \<Longrightarrow> randint_calls s' = randint_calls s + 1"
  by (auto simp: single_edge_def Let_def split: sum.splits if_splits)

lemma double_edge_calls:
  "double_edge L rng i t e s = Inr s' \<Longrightarrow> randint_calls s' = randint_calls s + 1"
  by (auto simp: double_edge_def Let_def split: sum.splits if_splits)

lemma sum_list_ones: "sum_list (map (\<lambda>x. Suc 0) xs) = length xs"
  by (induction xs) auto

lemma single_trip_agree:
  assumes "\<forall>j<length (Edge_path_E_road (snd ir)). rng1 (randint_calls s + j) = rng2 (randint_calls s + j)"
  shows "single_trip L rng1 ir s = single_trip L rng2 ir s \<and>
         (\<forall>s'. single_trip L rng1 ir s = Inr s' \<longrightarrow>
            randint_calls s' = randint_calls s + length (Edge_path_E_road (snd ir)))"
proof -
  let ?s0 = "s\<lparr>travel_distance := Distance_from_origin_region_to_E_road (snd ir), breaks := 0\<rparr>"
  let ?f = "\<lambda>rng. single_edge L rng (fst ir) (Traffic_flow_trucks_2030 (snd ir))"
  have "for_loop (?f rng1) (Edge_path_E_road (snd ir)) ?s0 = for_loop (?f rng2) (Edge_path_E_road (snd ir)) ?s0 \<and>
         (\<forall>s'. for_loop (?f rng1) (Edge_path_E_road (snd ir)) ?s0 = Inr s' \<longrightarrow>
            randint_calls s' = randint_calls ?s0 + sum_list (map (\<lambda>x. Suc 0) (Edge_path_E_road (snd ir))))"
  proof (rule for_loop_agree)
    fix x and t :: seg_state
    assume "\<forall>j<Suc 0. rng1 (randint_calls t + j) = rng2 (randint_calls t + j)"
    then have "rng1 (randint_calls t) = rng2 (randint_calls t)" by simp
    then show "?f rng1 x t = ?f rng2 x t" by (rule single_edge_agree)
  next
    fix x and t t' :: seg_state
    assume "?f rng1 x t = Inr t'"
    then show "randint_calls t' = randint_calls t + Suc 0" by (simp add: single_edge_calls)
  next
    show "\<forall>j<sum_list (map (\<lambda>x. Suc 0) (Edge_path_E_road (snd ir))).
            rng1 (randint_calls ?s0 + j) = rng2 (randint_calls ?s0 + j)"
      using assms by (simp add: sum_list_ones)
  qed
  then show ?thesis by (simp add: single_trip_def sum_list_ones)
qed

lemma double_trip_agree:
  assumes "\<forall>j<length (Edge_path_E_road (snd ir)). rng1 (randint_calls s + j) = rng2 (randint_calls s + j)"
  shows "double_trip L rng1 ir s = double_trip L rng2 ir s \<and>
         (\<forall>s'. double_trip L rng1 ir s = Inr s' \<longrightarrow>
            randint_calls s' = randint_calls s + length (Edge_path_E_road (snd ir)))"
proof -
  let ?s0 = "s\<lparr>travel_distance := Distance_from_origin_region_to_E_road (snd ir), breaks := 0,
               breaks_reset := 0\<rparr>"
  let ?f = "\<lambda>rng. double_edge L rng (fst ir) (Traffic_flow_trucks_2030 (snd ir))"
  have "for_loop (?f rng1) (Edge_path_E_road (snd ir)) ?s0 = for_loop (?f rng2) (Edge_path_E_road (snd ir)) ?s0 \<and>
         (\<forall>s'. for_loop (?f rng1) (Edge_path_E_road (snd ir)) ?s0 = Inr s' \<longrightarrow>
            randint_calls s' = randint_calls ?s0 + sum_list (map (\<lambda>x. Suc 0) (Edge_path_E_road (snd ir))))"
  proof (rule for_loop_agree)
    fix x and t :: seg_state
    assume "\<forall>j<Suc 0. rng1 (randint_calls t + j) = rng2 (randint_calls t + j)"
    then have "rng1 (randint_calls t) = rng2 (randint_calls t)" by simp
    then show "?f rng1 x t = ?f rng2 x t" by (rule double_edge_agree)
  next
    fix x and t t' :: seg_state
    assume "?f rng1 x t = Inr t'"
    then show "randint_calls t' = randint_calls t + Suc 0" by (simp add: double_edge_calls)
  next
    show "\<forall>j<sum_list (map (\<lambda>x. Suc 0) (Edge_path_E_road (snd ir))).
            rng1 (randint_calls ?s0 + j) = rng2 (randint_calls ?s0 + j)"
      using assms by (simp add: sum_list_ones)
  qed
  then show ?thesis by (simp add: double_trip_def sum_list_ones)
qed

lemma cost_enumerate:
  "sum_list (map (\<lambda>ir. length (Edge_path_E_road (snd ir))) (enumerate n rows)) =
   sum_list (map (\<lambda>r. length (Edge_path_E_road r)) rows)"
  by (induction rows arbitrary: n) auto

lemma single_trips_agree:
  assumes "\<forall>j<sum_list (map (\<lambda>r. length (Edge_path_E_road r)) rows).
             rng1 (randint_calls s + j) = rng2 (randint_calls s + j)"
  shows "for_loop (single_trip L rng1) (enumerate n rows) s =
         for_loop (single_trip L rng2) (enumerate n rows) s \<and>
         (\<forall>s'. for_loop (single_trip L rng1) (enumerate n rows) s = Inr s' \<longrightarrow>
            randint_calls s' = randint_calls s + sum_list (map (\<lambda>r. length (Edge_path_E_road r)) rows))"
proof -
  let ?cost = "\<lambda>ir::nat \<times> traffic_row. length (Edge_path_E_road (snd ir))"
  have "for_loop (single_trip L rng1) (enumerate n rows) s =
         for_loop (single_trip L rng2) (enumerate n rows) s \<and>
         (\<forall>s'. for_loop (single_trip L rng1) (enumerate n rows) s = Inr s' \<longrightarrow>
            randint_calls s' = randint_calls s + sum_list (map ?cost (enumerate n rows)))"
  proof (rule for_loop_agree)
    fix x and t :: seg_state
    assume "\<forall>j<?cost x. rng1 (randint_calls t + j) = rng2 (randint_calls t + j)"
    then show "single_trip L rng1 x t = single_trip L rng2 x t"
      using single_trip_agree by blast
  next
    fix x and t t' :: seg_state
    assume "x \<in> set (enumerate n rows)" "single_trip L rng1 x t = Inr t'"
    then show "randint_calls t' = randint_calls t + ?cost x"
      using single_trip_agree[of x rng1 t rng1 L] by simp
  next
    show "\<forall>j<sum_list (map ?cost (enumerate n rows)).
            rng1 (randint_calls s + j) = rng2 (randint_calls s + j)"
      using assms by (simp add: cost_enumerate)
  qed
  then show ?thesis by (simp add: cost_enumerate)
qed

lemma double_trips_agree:
  assumes "\<forall>j<sum_list (map (\<lambda>r. length (Edge_path_E_road r)) rows).
             rng1 (randint_calls s + j) = rng2 (randint_calls s + j)"
  shows "for_loop (double_trip L rng1) (enumerate n rows) s =
         for_loop (double_trip L rng2) (enumerate n rows) s"
proof -
  let ?cost = "\<lambda>ir::nat \<times> traffic_row. length (Edge_path_E_road (snd ir))"
  have "for_loop (double_trip L rng1) (enumerate n rows) s =
         for_loop (double_trip L rng2) (enumerate n rows) s \<and>
         (\<forall>s'. for_loop (double_trip L rng1) (enumerate n rows) s = Inr s' \<longrightarrow>
            randint_calls s' = randint_calls s + sum_list (map ?cost (enumerate n rows)))"
  proof (rule for_loop_agree)
    fix x and t :: seg_state
    assume "\<forall>j<?cost x. rng1 (randint_calls t + j) = rng2 (randint_calls t + j)"
    then show "double_trip L rng1 x t = double_trip L rng2 x t"
      using double_trip_agree by blast
  next
    fix x and t t' :: seg_state
    assume "x \<in> set (enumerate n rows)" "double_trip L rng1 x t = Inr t'"
    then show "randint_calls t' = randint_calls t + ?cost x"
      using double_trip_agree[of x rng1 t rng1 L] by simp
  next
    show "\<forall>j<sum_list (map ?cost (enumerate n rows)).
            rng1 (randint_calls s + j) = rng2 (randint_calls s + j)"
      using assms by (simp add: cost_enumerate)
  qed
  then show ?thesis by simp
qed

subsection \<open>The claims about the segmentation\<close>

text \<open>
  Claim C2 says that an edge id missing from the lookup ends its own trip only. In the
  source the \<open>KeyError\<close> leaves both loops: a batch whose first trip walks the unknown
  edge 99 yields no rows at all, although its second trip, run alone, yields a break.
\<close>

theorem failure_isolation_counterexample:
  "main_breaks
     [\<lparr>Distance_from_origin_region_to_E_road = 10, Distance_within_E_road = 200,
       Traffic_flow_trucks_2030 = 3, Edge_path_E_road = [99]\<rparr>,
      \<lparr>Distance_from_origin_region_to_E_road = 200, Distance_within_E_road = 200,
       Traffic_flow_trucks_2030 = 5, Edge_path_E_road = [1]\<rparr>]
     example_lookups (\<lambda>i. 0) = Inl (KeyError 99) \<and>
   main_breaks
     [\<lparr>Distance_from_origin_region_to_E_road = 200, Distance_within_E_road = 200,
       Traffic_flow_trucks_2030 = 5, Edge_path_E_road = [1]\<rparr>]
     example_lookups (\<lambda>i. 0) =
     Inr [\<lparr>Trip_ID = 0, Driver = 1, Break_Nr = 1, Break_Type = ''short'', Edge = 1,
           Edge_length = 200, Node_B = 11, Latitude_B = 50, Longitude_B = 8, Break_Number = 5\<rparr>]"
  by (simp add: main_eval seg_eval)

text \<open>
  Claim C2, amended (an unknown edge ends the whole run). If any trip that passes the
  one-driver or the two-driver filter has on its path an edge id missing from
  \<open>dict_edge_length\<close>, the run ends with a \<open>KeyError\<close> and returns no rows of \<open>dict_break\<close>,
  whatever the jitter.
\<close>

theorem unknown_edge_aborts_run:
  assumes "r \<in> set (df_traffic_flow_filtered df) \<or> r \<in> set (df_traffic_flow_filtered_two_driver df)"
    and "e \<in> set (Edge_path_E_road r)"
    and "dict_edge_length L e = None"
  shows "\<exists>k. main_breaks df L rng = Inl (KeyError k)"
proof -
  have "\<exists>err. main_breaks df L rng = Inl err"
  proof (cases "for_loop (single_trip L rng) (enumerate 0 (df_traffic_flow_filtered df)) initial_state")
    case (Inl err)
    then show ?thesis by (simp add: main_breaks_def)
  next
    case (Inr s1)
    have notin: "r \<notin> set (df_traffic_flow_filtered df)"
    proof
      assume "r \<in> set (df_traffic_flow_filtered df)"
      from in_enumerate[OF this, of 0]
      obtain i where i: "(i, r) \<in> set (enumerate 0 (df_traffic_flow_filtered df))"
        by blast
      have "\<exists>err. for_loop (single_trip L rng) (enumerate 0 (df_traffic_flow_filtered df)) initial_state = Inl err"
        by (rule for_loop_fails[OF i]) (rule single_trip_missing, use assms in simp_all)
      with Inr show False by simp
    qed
    with assms(1) have "r \<in> set (df_traffic_flow_filtered_two_driver df)" by simp
    from in_enumerate[OF this, of 0]
    obtain i where i: "(i, r) \<in> set (enumerate 0 (df_traffic_flow_filtered_two_driver df))"
      by blast
    have "\<exists>err. for_loop (double_trip L rng) (enumerate 0 (df_traffic_flow_filtered_two_driver df)) s1 = Inl err"
      by (rule for_loop_fails[OF i]) (rule double_trip_missing, use assms in simp_all)
    with Inr show ?thesis by (auto simp: main_breaks_def)
  qed
  then show ?thesis using main_breaks_error by blast
qed

theorem unknown_edge_aborts_run_witness:
  "main_breaks
     [\<lparr>Distance_from_origin_region_to_E_road = 200, Distance_within_E_road = 200,
       Traffic_flow_trucks_2030 = 5, Edge_path_E_road = [1]\<rparr>,
      \<lparr>Distance_from_origin_region_to_E_road = 10, Distance_within_E_road = 200,
       Traffic_flow_trucks_2030 = 3, Edge_path_E_road = [2, 99]\<rparr>]
     example_lookups (\<lambda>i. 0) = Inl (KeyError 99)"
proof -
  let ?bad = "\<lparr>Distance_from_origin_region_to_E_road = 10, Distance_within_E_road = 200,
       Traffic_flow_trucks_2030 = 3, Edge_path_E_road = [2, 99]\<rparr>"
  let ?df = "[\<lparr>Distance_from_origin_region_to_E_road = 200, Distance_within_E_road = 200,
       Traffic_flow_trucks_2030 = 5, Edge_path_E_road = [1]\<rparr>, ?bad]"
  have h1: "?bad \<in> set (df_traffic_flow_filtered ?df) \<or> ?bad \<in> set (df_traffic_flow_filtered_two_driver ?df)"
    by (simp add: main_eval)
  have h2: "99 \<in> set (Edge_path_E_road ?bad)" by simp
  have h3: "dict_edge_length example_lookups 99 = None" by (simp add: example_lookups_def)
  from unknown_edge_aborts_run[OF h1 h2 h3, of "\<lambda>i. 0"] obtain k where
    k: "main_breaks ?df example_lookups (\<lambda>i. 0) = Inl (KeyError k)" by blast
  have "main_breaks ?df example_lookups (\<lambda>i. 0) = Inl (KeyError 99)"
    by (simp add: main_eval seg_eval)
  with k show ?thesis by simp
qed

text \<open>
  Claim C3 (one driver: short and long alternate). The breaks a one-driver trip appends
  to \<open>dict_break\<close> are numbered 1, 2, 3, ... in \<open>Break_Nr\<close>; the one numbered \<open>k + 1\<close> is
  \<open>short\<close> when \<open>k + 1\<close> is odd and \<open>long\<close> when it is even, so the types read
  short, long, short, long, ...
\<close>

theorem single_driver_alternation:
  assumes "single_trip L rng (index, row) s = Inr s'"
  shows "\<exists>evs. dict_break s' = dict_break s @ evs \<and> breaks s' = length evs \<and>
           (\<forall>k<length evs. Break_Nr (evs ! k) = k + 1 \<and> Trip_ID (evs ! k) = index \<and>
              Driver (evs ! k) = 1 \<and>
              Break_Type (evs ! k) = (if odd (k + 1) then ''short'' else ''long''))"
proof -
  from assms have "for_loop (single_edge L rng index (Traffic_flow_trucks_2030 row)) (Edge_path_E_road row)
       (s\<lparr>travel_distance := Distance_from_origin_region_to_E_road row, breaks := 0\<rparr>) = Inr s'"
    by (simp add: single_trip_def)
  from single_loop_breaks[OF this] show ?thesis by simp
qed

theorem single_driver_alternation_witness:
  "\<exists>s'. single_trip example_lookups (\<lambda>i. 0)
          (0, \<lparr>Distance_from_origin_region_to_E_road = 0, Distance_within_E_road = 1600,
               Traffic_flow_trucks_2030 = 5, Edge_path_E_road = [1, 2, 3, 1, 2, 3, 1, 2]\<rparr>)
          initial_state = Inr s' \<and>
        map Break_Type (dict_break s') = [''short'', ''long'', ''short'', ''long''] \<and>
        map Break_Nr (dict_break s') = [1, 2, 3, 4] \<and>
        map Edge (dict_break s') = [2, 1, 3, 2]"
proof -
  obtain s' where run: "single_trip example_lookups (\<lambda>i. 0)
          (0, \<lparr>Distance_from_origin_region_to_E_road = 0, Distance_within_E_road = 1600,
               Traffic_flow_trucks_2030 = 5, Edge_path_E_road = [1, 2, 3, 1, 2, 3, 1, 2]\<rparr>)
          initial_state = Inr s'"
    and edges: "map Edge (dict_break s') = [2, 1, 3, 2]" "length (dict_break s') = 4"
    by (simp add: seg_eval)
  from single_driver_alternation[OF run] obtain evs where
    evs: "dict_break s' = dict_break initial_state @ evs"
      "\<forall>k<length evs. Break_Nr (evs ! k) = k + 1 \<and> Trip_ID (evs ! k) = 0 \<and>
              Driver (evs ! k) = 1 \<and>
              Break_Type (evs ! k) = (if odd (k + 1) then ''short'' else ''long'')"
    by blast
  have e: "evs = dict_break s'" using evs(1) by (simp add: initial_state_def)
  have "length evs = 4" using e edges(2) by simp
  then obtain a b c d where abcd: "evs = [a, b, c, d]"
    by (auto simp: length_Suc_conv numeral_eq_Suc)
  have k0: "Break_Nr a = 1 \<and> Break_Type a = ''short''"
    using evs(2)[rule_format, of 0] abcd by simp
  have k1: "Break_Nr b = 2 \<and> Break_Type b = ''long''"
    using evs(2)[rule_format, of 1] abcd by simp
  have k2: "Break_Nr c = 3 \<and> Break_Type c = ''short''"
    using evs(2)[rule_format, of 2] abcd by simp
  have k3: "Break_Nr d = 4 \<and> Break_Type d = ''long''"
    using evs(2)[rule_format, of 3] abcd by simp
  have ds: "dict_break s' = [a, b, c, d]" using e abcd by simp
  show ?thesis using edges(1) by (intro exI[of _ s']) (simp add: run ds k0 k1 k2 k3)
qed

text \<open>
  Claim C4 (two drivers: three short, one long). The counter \<open>breaks_reset\<close> starts at 0
  in every two-driver trip; a break is \<open>short\<close> and increments it while it is at most 2,
  otherwise the break is \<open>long\<close> and the counter returns to 0. The break numbered
  \<open>k + 1\<close> of the trip is therefore \<open>long\<close> exactly when \<open>k + 1\<close> is a multiple of 4:
  short, short, short, long, short, short, short, long, ...
\<close>

theorem double_driver_alternation:
  assumes "double_trip L rng (index, row) s = Inr s'"
  shows "\<exists>evs. dict_break s' = dict_break s @ evs \<and> breaks s' = length evs \<and>
           (\<forall>k<length evs. Break_Nr (evs ! k) = k + 1 \<and> Trip_ID (evs ! k) = index \<and>
              Driver (evs ! k) = 2 \<and>
              Break_Type (evs ! k) = (if (k + 1) mod 4 = 0 then ''long'' else ''short''))"
proof -
  from assms have run: "for_loop (double_edge L rng index (Traffic_flow_trucks_2030 row)) (Edge_path_E_road row)
       (s\<lparr>travel_distance := Distance_from_origin_region_to_E_road row, breaks := 0, breaks_reset := 0\<rparr>) = Inr s'"
    by (simp add: double_trip_def)
  have m: "\<And>k::nat. (k mod 4 = 3) = (Suc k mod 4 = 0)" by presburger
  from double_loop_breaks[OF run] obtain evs where
    evs: "dict_break s' = dict_break s @ evs" "breaks s' = length evs"
      "\<forall>k<length evs. Break_Nr (evs ! k) = k + 1 \<and> Trip_ID (evs ! k) = index \<and>
              Driver (evs ! k) = 2 \<and>
              Break_Type (evs ! k) = (if k mod 4 = 3 then ''long'' else ''short'')"
    by auto
  have "\<forall>k<length evs. Break_Nr (evs ! k) = k + 1 \<and> Trip_ID (evs ! k) = index \<and>
              Driver (evs ! k) = 2 \<and>
              Break_Type (evs ! k) = (if (k + 1) mod 4 = 0 then ''long'' else ''short'')"
    using evs(3) by (simp add: m)
  with evs(1,2) show ?thesis by blast
qed

theorem double_driver_alternation_witness:
  "\<exists>s'. double_trip example_lookups (\<lambda>i. 0)
          (0, \<lparr>Distance_from_origin_region_to_E_road = 0, Distance_within_E_road = 5000,
               Traffic_flow_trucks_2030 = 5, Edge_path_E_road = [1, 2, 3, 1, 2, 3, 1, 2, 3, 1]\<rparr>)
          initial_state = Inr s' \<and>
        map Break_Type (dict_break s') = [''short'', ''short'', ''short'', ''long'', ''short''] \<and>
        map Break_Nr (dict_break s') = [1, 2, 3, 4, 5] \<and>
        map Edge (dict_break s') = [2, 1, 3, 2, 1]"
proof -
  obtain s' where run: "double_trip example_lookups (\<lambda>i. 0)
          (0, \<lparr>Distance_from_origin_region_to_E_road = 0, Distance_within_E_road = 5000,
               Traffic_flow_trucks_2030 = 5, Edge_path_E_road = [1, 2, 3, 1, 2, 3, 1, 2, 3, 1]\<rparr>)
          initial_state = Inr s'"
    and edges: "map Edge (dict_break s') = [2, 1, 3, 2, 1]" "length (dict_break s') = 5"
    by (simp add: seg_eval)
  from double_driver_alternation[OF run] obtain evs where
    evs: "dict_break s' = dict_break initial_state @ evs"
      "\<forall>k<length evs. Break_Nr (evs ! k) = k + 1 \<and> Trip_ID (evs ! k) = 0 \<and>
              Driver (evs ! k) = 2 \<and>
              Break_Type (evs ! k) = (if (k + 1) mod 4 = 0 then ''long'' else ''short'')"
    by blast
  have e: "evs = dict_break s'" using evs(1) by (simp add: initial_state_def)
  have "length evs = 5" using e edges(2) by simp
  then obtain a b c d f where abcd: "evs = [a, b, c, d, f]"
    by (auto simp: length_Suc_conv numeral_eq_Suc)
  have k0: "Break_Nr a = 1 \<and> Break_Type a = ''short''"
    using evs(2)[rule_format, of 0] abcd by simp
  have k1: "Break_Nr b = 2 \<and> Break_Type b = ''short''"
    using evs(2)[rule_format, of 1] abcd by simp
  have k2: "Break_Nr c = 3 \<and> Break_Type c = ''short''"
    using evs(2)[rule_format, of 2] abcd by simp
  have k3: "Break_Nr d = 4 \<and> Break_Type d = ''long''"
    using evs(2)[rule_format, of 3] abcd by simp
  have k4: "Break_Nr f = 5 \<and> Break_Type f = ''short''"
    using evs(2)[rule_format, of 4] abcd by simp
  have ds: "dict_break s' = [a, b, c, d, f]" using e abcd by simp
  show ?thesis using edges(1) by (intro exI[of _ s']) (simp add: run ds k0 k1 k2 k3 k4)
qed

text \<open>
  Claim C8 says that a fixed seed makes two runs on the same input equal. The source has
  no seed: lines 137 and 180 draw from numpy's process-wide generator, which \<open>main\<close>
  never seeds and cannot be handed. Two runs on the same rows and lookups draw
  different values and differ: with every draw 49 the trip below has no break, with
  every draw -50 it has one.
\<close>

theorem unseeded_runs_counterexample:
  "main_breaks
     [\<lparr>Distance_from_origin_region_to_E_road = 0, Distance_within_E_road = 400,
       Traffic_flow_trucks_2030 = 5, Edge_path_E_road = [1, 2]\<rparr>]
     example_lookups (\<lambda>i. 49) = Inr [] \<and>
   main_breaks
     [\<lparr>Distance_from_origin_region_to_E_road = 0, Distance_within_E_road = 400,
       Traffic_flow_trucks_2030 = 5, Edge_path_E_road = [1, 2]\<rparr>]
     example_lookups (\<lambda>i. - 50) =
     Inr [\<lparr>Trip_ID = 0, Driver = 1, Break_Nr = 1, Break_Type = ''short'', Edge = 2,
           Edge_length = 200, Node_B = 12, Latitude_B = 51, Longitude_B = 9, Break_Number = 5\<rparr>] \<and>
   df_breaks
     [\<lparr>Distance_from_origin_region_to_E_road = 0, Distance_within_E_road = 400,
       Traffic_flow_trucks_2030 = 5, Edge_path_E_road = [1, 2]\<rparr>]
     example_lookups (\<lambda>i. 49) = Inr [] \<and>
   df_breaks
     [\<lparr>Distance_from_origin_region_to_E_road = 0, Distance_within_E_road = 400,
       Traffic_flow_trucks_2030 = 5, Edge_path_E_road = [1, 2]\<rparr>]
     example_lookups (\<lambda>i. - 50) =
     Inr [\<lparr>Trip_ID = 0, Driver = 1, Break_Nr = 1, Break_Type = ''short'', Edge = 2,
           Edge_length = 200, Node_B = 12, Latitude_B = 51, Longitude_B = 9, Break_Number = 5\<rparr>]"
  by (simp add: df_breaks_def main_eval seg_eval)

text \<open>
  Claim C8, amended (the result is a function of the input and the draws). The rows of
  \<open>dict_break\<close> and the sorted frame \<open>df_breaks\<close>, or the exception, depend on the
  generator only through the values it returns to the first \<open>edge_checks\<close> calls, one
  call per edge walked: two runs on the same rows and lookups whose draws agree that far
  give the same result.
\<close>

theorem segmentation_deterministic:
  assumes "\<forall>i<edge_checks df. rng1 i = rng2 i"
  shows "main_breaks df L rng1 = main_breaks df L rng2 \<and> df_breaks df L rng1 = df_breaks df L rng2"
proof -
  let ?one = "df_traffic_flow_filtered df" and ?two = "df_traffic_flow_filtered_two_driver df"
  let ?n1 = "sum_list (map (\<lambda>r. length (Edge_path_E_road r)) ?one)"
  let ?n2 = "sum_list (map (\<lambda>r. length (Edge_path_E_road r)) ?two)"
  have total: "edge_checks df = ?n1 + ?n2" by (simp add: edge_checks_def)
  have a1: "\<forall>j<?n1. rng1 (randint_calls initial_state + j) = rng2 (randint_calls initial_state + j)"
    using assms total by (simp add: initial_state_def)
  note first = single_trips_agree[OF a1, of L 0]
  have eq1: "for_loop (single_trip L rng2) (enumerate 0 ?one) initial_state =
             for_loop (single_trip L rng1) (enumerate 0 ?one) initial_state"
    using first by simp
  have rows: "main_breaks df L rng1 = main_breaks df L rng2"
  proof (cases "for_loop (single_trip L rng1) (enumerate 0 ?one) initial_state")
    case (Inl e)
    then show ?thesis by (simp add: main_breaks_def eq1)
  next
    case (Inr s1)
    with first have c: "randint_calls s1 = ?n1" by (simp add: initial_state_def)
    have a2: "\<forall>j<?n2. rng1 (randint_calls s1 + j) = rng2 (randint_calls s1 + j)"
      using assms total c by simp
    have eq2: "for_loop (double_trip L rng2) (enumerate 0 ?two) s1 =
               for_loop (double_trip L rng1) (enumerate 0 ?two) s1"
      using double_trips_agree[OF a2, of L 0] by simp
    from Inr show ?thesis by (simp add: main_breaks_def eq1 eq2)
  qed
  then have "df_breaks df L rng1 = df_breaks df L rng2" by (simp add: df_breaks_def)
  with rows show ?thesis by simp
qed

theorem segmentation_deterministic_witness:
  "main_breaks
     [\<lparr>Distance_from_origin_region_to_E_road = 100, Distance_within_E_road = 400,
       Traffic_flow_trucks_2030 = 5, Edge_path_E_road = [1, 2]\<rparr>]
     example_lookups (\<lambda>i. if i < 2 then 49 else 0) =
   main_breaks
     [\<lparr>Distance_from_origin_region_to_E_road = 100, Distance_within_E_road = 400,
       Traffic_flow_trucks_2030 = 5, Edge_path_E_road = [1, 2]\<rparr>]
     example_lookups (\<lambda>i. if i < 2 then 49 else - 50) \<and>
   df_breaks
     [\<lparr>Distance_from_origin_region_to_E_road = 100, Distance_within_E_road = 400,
       Traffic_flow_trucks_2030 = 5, Edge_path_E_road = [1, 2]\<rparr>]
     example_lookups (\<lambda>i. if i < 2 then 49 else 0) =
   df_breaks
     [\<lparr>Distance_from_origin_region_to_E_road = 100, Distance_within_E_road = 400,
       Traffic_flow_trucks_2030 = 5, Edge_path_E_road = [1, 2]\<rparr>]
     example_lookups (\<lambda>i. if i < 2 then 49 else - 50)"
proof -
  have "\<forall>i<edge_checks [\<lparr>Distance_from_origin_region_to_E_road = 100, Distance_within_E_road = 400,
       Traffic_flow_trucks_2030 = 5, Edge_path_E_road = [1, 2]\<rparr>].
          (\<lambda>i. if i < 2 then 49 else 0) i = (\<lambda>i. if i < 2 then 49 else (- 50 :: int)) i"
    by (simp add: edge_checks_def main_eval)
  then show ?thesis by (rule segmentation_deterministic)
qed

text \<open>
  Claim C9 (three edges of 200 km). With jitter 0 on every draw, a one-driver trip that
  enters with distance 0 and walks three edges of length 200 appends exactly one break:
  number 1, of type \<open>short\<close>, on the second edge. After the first edge the distance is
  200 and nothing is appended; after the second the row \<open>b\<close> is appended and the distance
  is back to 0; the trip ends with \<open>travel_distance = 200\<close>, one break counted and three
  draws made, and nothing is appended at the end of the path.
\<close>

theorem scenario_three_edges:
  assumes len: "dict_edge_length L e1 = Some 200" "dict_edge_length L e2 = Some 200"
      "dict_edge_length L e3 = Some 200"
    and node: "dict_edge_node_b L e2 = Some n" "dict_node_lat L n = Some lat"
      "dict_node_lon L n = Some lon"
    and row: "Edge_path_E_road row = [e1, e2, e3]" "Distance_from_origin_region_to_E_road row = 0"
    and b: "b = \<lparr>Trip_ID = index, Driver = 1, Break_Nr = 1, Break_Type = ''short'',
                 Edge = e2, Edge_length = 200, Node_B = n, Latitude_B = lat,
                 Longitude_B = lon, Break_Number = Traffic_flow_trucks_2030 row\<rparr>"
    and s0: "s0 = s\<lparr>travel_distance := 0, breaks := 0\<rparr>"
  shows "for_loop (single_edge L (\<lambda>i. 0) index (Traffic_flow_trucks_2030 row)) [e1] s0 =
           Inr (s0\<lparr>travel_distance := 200, randint_calls := randint_calls s + 1\<rparr>) \<and>
         for_loop (single_edge L (\<lambda>i. 0) index (Traffic_flow_trucks_2030 row)) [e1, e2] s0 =
           Inr (s0\<lparr>travel_distance := 0, breaks := 1, randint_calls := randint_calls s + 2,
                   dict_break := dict_break s @ [b]\<rparr>) \<and>
         single_trip L (\<lambda>i. 0) (index, row) s =
           Inr (s\<lparr>travel_distance := 200, breaks := 1, randint_calls := randint_calls s + 3,
                  dict_break := dict_break s @ [b]\<rparr>)"
proof -
  note defs = single_edge_def new_break_def getitem_def DISTANCE_THRESHOLD_def Let_def
  have one: "for_loop (single_edge L (\<lambda>i. 0) index (Traffic_flow_trucks_2030 row)) [e1] s0 =
           Inr (s0\<lparr>travel_distance := 200, randint_calls := randint_calls s + 1\<rparr>)"
    using len s0 by (simp add: defs)
  have two: "for_loop (single_edge L (\<lambda>i. 0) index (Traffic_flow_trucks_2030 row)) [e1, e2] s0 =
           Inr (s0\<lparr>travel_distance := 0, breaks := 1, randint_calls := randint_calls s + 2,
                   dict_break := dict_break s @ [b]\<rparr>)"
    using len node s0 b by (simp add: defs)
  have three: "single_trip L (\<lambda>i. 0) (index, row) s =
           Inr (s\<lparr>travel_distance := 200, breaks := 1, randint_calls := randint_calls s + 3,
                  dict_break := dict_break s @ [b]\<rparr>)"
    using len node row b by (simp add: single_trip_def defs)
  from one two three show ?thesis by blast
qed

theorem scenario_three_edges_witness:
  "single_trip example_lookups (\<lambda>i. 0)
     (0, \<lparr>Distance_from_origin_region_to_E_road = 0, Distance_within_E_road = 600,
          Traffic_flow_trucks_2030 = 5, Edge_path_E_road = [1, 2, 3]\<rparr>) initial_state =
   Inr \<lparr>travel_distance = 200, breaks = 1, breaks_reset = 0, randint_calls = 3,
        dict_break = [\<lparr>Trip_ID = 0, Driver = 1, Break_Nr = 1, Break_Type = ''short'',
                      Edge = 2, Edge_length = 200, Node_B = 12, Latitude_B = 51,
                      Longitude_B = 9, Break_Number = 5\<rparr>]\<rparr>"
proof -
  let ?row = "\<lparr>Distance_from_origin_region_to_E_road = 0, Distance_within_E_road = 600,
          Traffic_flow_trucks_2030 = 5, Edge_path_E_road = [1, 2, 3]\<rparr>"
  have h: "dict_edge_length example_lookups 1 = Some 200" "dict_edge_length example_lookups 2 = Some 200"
      "dict_edge_length example_lookups 3 = Some 200" "dict_edge_node_b example_lookups 2 = Some 12"
      "dict_node_lat example_lookups 12 = Some 51" "dict_node_lon example_lookups 12 = Some 9"
      "Edge_path_E_road ?row = [1, 2, 3]" "Distance_from_origin_region_to_E_road ?row = 0"
    by (simp_all add: example_lookups_def)
  from scenario_three_edges[OF h refl refl, of 0 initial_state]
  show ?thesis by (simp add: initial_state_def)
qed

end
